theory Spec2Isabelle
  imports Complex_Main
begin

section \<open>Text\<close>

text \<open>
  A Python \<open>str\<close> is a sequence of Unicode code points, so text is a list of code points
  (\<open>nat\<close>); \<open>of_ascii\<close> turns an ASCII literal into such a list. The pound sign is
  code point 163 and the euro sign 8364.
\<close>

type_synonym pystr = "nat list"

definition of_ascii :: "string \<Rightarrow> pystr" where
  "of_ascii s = map of_char s"

text \<open>
  \<open>is_space\<close> is \<open>str.isspace\<close> on one code point; \<open>str.strip()\<close> and the regular
  expression class \<open>\s\<close> both use it. \<open>is_digit\<close> recognises the ASCII digits: Python's
  \<open>\d\<close>, \<open>int\<close> and \<open>float\<close> accept the decimal digits of other scripts as well, which
  this development leaves out (such a code point counts as a non-digit here).
\<close>

definition is_space :: "nat \<Rightarrow> bool" where
  "is_space c \<longleftrightarrow>
     (9 \<le> c \<and> c \<le> 13) \<or> (28 \<le> c \<and> c \<le> 32) \<or> c = 133 \<or> c = 160 \<or> c = 5760 \<or>
     (8192 \<le> c \<and> c \<le> 8202) \<or> c = 8232 \<or> c = 8233 \<or> c = 8239 \<or> c = 8287 \<or> c = 12288"

definition is_digit :: "nat \<Rightarrow> bool" where
  "is_digit c \<longleftrightarrow> 48 \<le> c \<and> c \<le> 57"

text \<open>
  \<open>lower_char\<close> lowers the letters A to Z. On the comparisons made in this program
  (against \<open>free\<close>, \<open>inf\<close>, \<open>infinity\<close>, \<open>nan\<close> and \<open>no results\<close>) it decides as
  \<open>str.lower()\<close> does: no code point outside ASCII has a lowercase form made of the letters
  of these words.
\<close>

definition lower_char :: "nat \<Rightarrow> nat" where
  "lower_char c = (if 65 \<le> c \<and> c \<le> 90 then c + 32 else c)"

definition lower :: "pystr \<Rightarrow> pystr" where
  "lower s = map lower_char s"

definition strip :: "pystr \<Rightarrow> pystr" where
  "strip s = rev (dropWhile is_space (rev (dropWhile is_space s)))"

text \<open>
  The number a run of digits denotes, and \<open>int(text)\<close> on a run of digits: CPython
  refuses a text of more than 4300 digits with a ValueError (the default of
  \<open>sys.int_info.default_max_str_digits\<close>, in force since version 3.11).
\<close>

definition int_of_digits :: "pystr \<Rightarrow> int" where
  "int_of_digits ds = foldl (\<lambda>a c. 10 * a + (int c - 48)) 0 ds"

section \<open>Numeric field extraction (parser.py)\<close>

text \<open>
  The exception classes the handlers of this program tell apart. Selenium's
  TimeoutException is a subclass of WebDriverException, and the source tests for it first:
  \<open>WebDriverException\<close> stands for one that is not a timeout, \<open>OtherError\<close> for any
  other \<open>Exception\<close> (ValueError, TypeError, OSError and so on).
\<close>

datatype exn = TimeoutException | WebDriverException | OtherError

definition MAX_STR_DIGITS :: nat where
  "MAX_STR_DIGITS = 4300"

definition int_py :: "pystr \<Rightarrow> exn + int" where
  "int_py ds = (if MAX_STR_DIGITS < length ds then Inl OtherError else Inr (int_of_digits ds))"

text \<open>
  \<open>re.search\<close> tries the pattern at every start position from the left and returns the
  first match; \<open>m\<close> is the pattern matched at the head of the remaining text.
\<close>

fun re_search :: "(pystr \<Rightarrow> pystr option) \<Rightarrow> pystr \<Rightarrow> pystr option" where
  "re_search m [] = m []"
| "re_search m (c # s) = (case m (c # s) of Some g \<Rightarrow> Some g | None \<Rightarrow> re_search m s)"

text \<open>
  The review pattern \<^verbatim>\<open>(\d{1,3}(?:,\d{3})*|\d+)\<close>. Its first alternative takes one to
  three digits greedily and then as many groups of a comma and three digits as follow;
  nothing comes after it in the pattern, so the greedy choice is the match. The second
  alternative is tried only where the first one fails.
\<close>

fun comma_groups :: "pystr \<Rightarrow> pystr" where
  "comma_groups (k # a # b # c # r) =
     (if k = 44 \<and> is_digit a \<and> is_digit b \<and> is_digit c
      then k # a # b # c # comma_groups r else [])"
| "comma_groups _ = []"

definition reviews_alt1 :: "pystr \<Rightarrow> pystr option" where
  "reviews_alt1 s =
     (let d = takeWhile is_digit (take 3 s)
      in if d = [] then None else Some (d @ comma_groups (drop (length d) s)))"

definition reviews_alt2 :: "pystr \<Rightarrow> pystr option" where
  "reviews_alt2 s =
     (let d = takeWhile is_digit s in if d = [] then None else Some d)"

definition reviews_pattern :: "pystr \<Rightarrow> pystr option" where
  "reviews_pattern s =
     (case reviews_alt1 s of Some g \<Rightarrow> Some g | None \<Rightarrow> reviews_alt2 s)"

text \<open>
  Lines 67 and 68 of parser.py: \<open>reviews_match\<close> is the search result (absent for an
  absent or empty text), \<open>extract_reviews\<close> the matched group with its commas removed,
  given to \<open>int\<close>. The ValueError of \<open>int\<close> leaves the container's \<open>try\<close> block, so
  it is a result here (\<open>Inl\<close>).
\<close>

definition reviews_match :: "pystr option \<Rightarrow> pystr option" where
  "reviews_match reviews_str =
     (case reviews_str of
        None \<Rightarrow> None
      | Some s \<Rightarrow> if s = [] then None else re_search reviews_pattern s)"

definition extract_reviews :: "pystr option \<Rightarrow> exn + int option" where
  "extract_reviews reviews_str =
     (case reviews_match reviews_str of
        None \<Rightarrow> Inr None
      | Some g \<Rightarrow> map_sum id Some (int_py (filter (\<lambda>c. c \<noteq> 44) g)))"


text \<open>
  The rating pattern \<^verbatim>\<open>(\d+(\.\d+)?)\<close>: a maximal run of digits, then a point and a
  maximal run of digits when both are there.
\<close>

definition rating_pattern :: "pystr \<Rightarrow> pystr option" where
  "rating_pattern s =
     (let d = takeWhile is_digit s; r = dropWhile is_digit s
      in if d = [] then None
         else (case r of
                 [] \<Rightarrow> Some d
               | p # r' \<Rightarrow>
                   (let f = takeWhile is_digit r'
                    in if p = 46 \<and> f \<noteq> [] then Some (d @ p # f) else Some d)))"

section \<open>Floating point values and float() (the Python runtime)\<close>

text \<open>
  The value \<open>float(text)\<close> returns is a binary64 number, an infinity or a NaN. A finite
  result is kept here as the exact rational its decimal literal denotes; Python rounds that
  to the nearest binary64 number (to an infinity beyond the range). Rounding keeps the sign
  and leaves a representable number such as 1234.5 as it is, which is all that is used
  below.
\<close>

datatype pyfloat = Finite rat | PosInf | NegInf | NaN

text \<open>
  The grammar of \<open>float\<close>:
  \<^verbatim>\<open>
  digitpart   ::= digit (["_"] digit)*
  number      ::= [digitpart] "." digitpart | digitpart ["."]
  exponent    ::= ("e" | "E") [sign] digitpart
  floatvalue  ::= [sign] (number [exponent] | "inf" | "infinity" | "nan")
  \<close>
  around which whitespace is dropped; the words are matched in any letter case. Each parser
  returns what it read, without the underscores, and the text left.
\<close>

fun digitpart_rest :: "pystr \<Rightarrow> pystr \<times> pystr" where
  "digitpart_rest (c # d # s) =
     (if is_digit c then (let (ds, r) = digitpart_rest (d # s) in (c # ds, r))
      else if c = 95 \<and> is_digit d then (let (ds, r) = digitpart_rest s in (d # ds, r))
      else ([], c # d # s))"
| "digitpart_rest [c] = (if is_digit c then ([c], []) else ([], [c]))"
| "digitpart_rest [] = ([], [])"

definition digitpart :: "pystr \<Rightarrow> (pystr \<times> pystr) option" where
  "digitpart s =
     (case s of
        [] \<Rightarrow> None
      | c # r \<Rightarrow> if is_digit c then (let (ds, r') = digitpart_rest r in Some (c # ds, r'))
                 else None)"

text \<open>\<open>number\<close> returns the integer digits, the fraction digits and the rest.\<close>

definition number :: "pystr \<Rightarrow> (pystr \<times> pystr \<times> pystr) option" where
  "number s =
     (case digitpart s of
        Some (i, r) \<Rightarrow>
          (case r of
             [] \<Rightarrow> Some (i, [], r)
           | p # r' \<Rightarrow>
               if p = 46 then (case digitpart r' of
                                 Some (f, r'') \<Rightarrow> Some (i, f, r'')
                               | None \<Rightarrow> Some (i, [], r'))
               else Some (i, [], r))
      | None \<Rightarrow>
          (case s of
             [] \<Rightarrow> None
           | p # r' \<Rightarrow>
               if p = 46 then (case digitpart r' of
                                 Some (f, r'') \<Rightarrow> Some ([], f, r'')
                               | None \<Rightarrow> None)
               else None))"

text \<open>\<open>exponent\<close> reads the exponent to the end of the text: absent text is exponent 0.\<close>

definition exponent :: "pystr \<Rightarrow> int option" where
  "exponent s =
     (case s of
        [] \<Rightarrow> Some 0
      | e # r \<Rightarrow>
          if e = 101 \<or> e = 69 then
            (let (neg, r') = (case r of
                                [] \<Rightarrow> (False, r)
                              | g # t \<Rightarrow> if g = 45 then (True, t)
                                         else if g = 43 then (False, t) else (False, r))
             in case digitpart r' of
                  Some (ds, []) \<Rightarrow> Some (if neg then - int_of_digits ds else int_of_digits ds)
                | _ \<Rightarrow> None)
          else None)"

definition scale10 :: "rat \<Rightarrow> int \<Rightarrow> rat" where
  "scale10 m e = (if 0 \<le> e then m * 10 ^ nat e else m / 10 ^ nat (- e))"

definition absfloatvalue :: "pystr \<Rightarrow> pyfloat option" where
  "absfloatvalue s =
     (if lower s = of_ascii ''inf'' \<or> lower s = of_ascii ''infinity'' then Some PosInf
      else if lower s = of_ascii ''nan'' then Some NaN
      else (case number s of
              None \<Rightarrow> None
            | Some (i, f, r) \<Rightarrow>
                (case exponent r of
                   None \<Rightarrow> None
                 | Some e \<Rightarrow>
                     Some (Finite (scale10 (of_int (int_of_digits (i @ f)) / 10 ^ length f) e)))))"

fun negate :: "pyfloat \<Rightarrow> pyfloat" where
  "negate (Finite q) = Finite (- q)"
| "negate PosInf = NegInf"
| "negate NegInf = PosInf"
| "negate NaN = NaN"

text \<open>\<open>float_py s\<close> is \<open>float(s)\<close>, with \<open>None\<close> where Python raises ValueError.\<close>

definition float_py :: "pystr \<Rightarrow> pyfloat option" where
  "float_py s =
     (case strip s of
        [] \<Rightarrow> None
      | g # t \<Rightarrow> if g = 45 then map_option negate (absfloatvalue t)
                 else if g = 43 then absfloatvalue t
                 else absfloatvalue (g # t))"

section \<open>utils.py\<close>

text \<open>
  The characters that \<^verbatim>\<open>re.sub(r"[$,\<pounds>\<euro>]|\s|,|", "", ...)\<close> removes: one alternative
  per disjunct (the last, empty alternative removes nothing).
\<close>

definition price_noise :: "nat \<Rightarrow> bool" where
  "price_noise c \<longleftrightarrow> (c = 36 \<or> c = 44 \<or> c = 163 \<or> c = 8364) \<or> is_space c \<or> c = 44"

text \<open>
  \<open>clean_price\<close>: \<open>None\<close> is Python's None, as an argument and as the result. The ValueError
  of \<open>float\<close> is caught in the source, so the function raises nothing.
\<close>

definition clean_price :: "pystr option \<Rightarrow> pyfloat option" where
  "clean_price price_str =
     (case price_str of
        None \<Rightarrow> None
      | Some p \<Rightarrow>
          (let cleaned = filter (\<lambda>c. \<not> price_noise c) (strip p);
               cleaned = (if 45 \<in> set cleaned then takeWhile (\<lambda>c. c \<noteq> 45) cleaned
                          else cleaned)
           in if lower cleaned = of_ascii ''free'' then Some (Finite 0)
              else float_py cleaned))"


section \<open>config.py\<close>

definition BASE_URL :: pystr where
  "BASE_URL = of_ascii ''https://www.example-ecommerce.com''"

definition CATEGORY_PATH :: pystr where
  "CATEGORY_PATH = of_ascii ''/electronics/laptops''"

definition MAX_PAGES :: nat where
  "MAX_PAGES = 2"

definition OUTPUT_FILENAME_CSV :: pystr where
  "OUTPUT_FILENAME_CSV = of_ascii ''products.csv''"

definition OUTPUT_FILENAME_JSON :: pystr where
  "OUTPUT_FILENAME_JSON = of_ascii ''products.json''"

section \<open>The collaborators\<close>

text \<open>
  What BeautifulSoup finds in one product container: the stripped text of the element each
  selector picks (\<open>None\<close> when \<open>select_one\<close> finds no element) and the \<open>href\<close> of the
  title link.
\<close>

record container =
  c_name :: "pystr option"
  c_price_str :: "pystr option"
  c_rating_str :: "pystr option"
  c_reviews_str :: "pystr option"
  c_relative_url :: "pystr option"

text \<open>The dictionary \<open>product_info\<close>.\<close>

record product =
  name :: pystr
  price :: "pyfloat option"
  rating :: "pyfloat option"
  reviews :: "int option"
  url :: pystr
  scraped_timestamp :: pystr

text \<open>
  The calls the program makes on the browser session and on the file system. The world
  outside is a function of the history of calls made so far (the call being answered is
  the last one), which says how that call ends: normally, or raising.
\<close>

datatype call =
    Setup
  | Get pystr
  | WaitUntil
  | PageSource
  | Quit
  | Makedirs
  | ToCsv "product list" pystr
  | JsonDump "product list" pystr

text \<open>
  \<open>env\<close> collects what the program is run against: the replies of the world, the two
  BeautifulSoup queries, \<open>urllib.parse.urljoin\<close> (which raises ValueError on some
  malformed references) and the clock: \<open>now k\<close> is what the call number \<open>k\<close> of
  \<open>get_timestamp_string\<close> returns.
\<close>

record env =
  on_setup :: "call list \<Rightarrow> exn option"
  on_get :: "call list \<Rightarrow> exn option"
  on_wait :: "call list \<Rightarrow> exn option"
  on_page_source :: "call list \<Rightarrow> exn + pystr"
  on_quit :: "call list \<Rightarrow> exn option"
  on_makedirs :: "call list \<Rightarrow> exn option"
  on_write :: "call list \<Rightarrow> exn option"
  soup_containers :: "pystr \<Rightarrow> container list"
  soup_next_href :: "pystr \<Rightarrow> pystr option"
  urljoin :: "pystr \<Rightarrow> pystr \<Rightarrow> exn + pystr"
  now :: "nat \<Rightarrow> pystr"

text \<open>
  The lines of the log that name why the crawl stopped; the other log lines are not kept.
\<close>

datatype log_line =
    NoResultsStop
  | NoNextLink
  | RecoveryFailed
  | WebDriverError
  | MaxPagesReached
  | NoDataToSave
  | Saved
  | SaveFailed
  | NoDataScraped
  | CriticalError
  | DriverClosed
  | CloseFailed

text \<open>
  The state the run threads through: the field \<open>all_products_data\<close> of the scraper, the
  calls made so far, the number of timestamps taken, and the log.
\<close>

record scraper =
  all_products_data :: "product list"
  history :: "call list"
  ticks :: nat
  log :: "log_line list"

section \<open>parser.py\<close>

text \<open>Python's truth value of an optional text: None and the empty text are false.\<close>

definition truthy :: "pystr option \<Rightarrow> bool" where
  "truthy t = (case t of None \<Rightarrow> False | Some s \<Rightarrow> s \<noteq> [])"

text \<open>
  Lines 61 and 62: the first match of the rating pattern, given to \<open>float\<close>. A ValueError
  of \<open>float\<close> would leave the container's \<open>try\<close> block, so it is a result here.
\<close>

definition extract_rating :: "pystr option \<Rightarrow> exn + pyfloat option" where
  "extract_rating rating_str =
     (case (if truthy rating_str then re_search rating_pattern (the rating_str) else None) of
        None \<Rightarrow> Inr None
      | Some g \<Rightarrow> (case float_py g of None \<Rightarrow> Inl OtherError | Some v \<Rightarrow> Inr (Some v)))"

text \<open>
  The body of the \<open>try\<close> block for one container, lines 50 to 87: \<open>Inl\<close> is an exception
  raised on the way, \<open>Inr None\<close> a container skipped for its missing name or URL. \<open>ts\<close> is
  the timestamp, which is taken only when the record is built.
\<close>

definition container_product ::
  "(pystr \<Rightarrow> pystr \<Rightarrow> exn + pystr) \<Rightarrow> pystr \<Rightarrow> container \<Rightarrow> exn + product option" where
  "container_product join ts c =
     (let price' = clean_price (c_price_str c)
      in case extract_rating (c_rating_str c) of
           Inl e \<Rightarrow> Inl e
         | Inr rating' \<Rightarrow>
             (case extract_reviews (c_reviews_str c) of
                Inl e \<Rightarrow> Inl e
              | Inr reviews' \<Rightarrow>
                  (case (if truthy (c_relative_url c)
                         then map_sum id Some (join BASE_URL (the (c_relative_url c)))
                         else Inr None) of
                     Inl e \<Rightarrow> Inl e
                   | Inr absolute_url \<Rightarrow>
                       if truthy (c_name c) \<and> truthy absolute_url
                       then Inr (Some \<lparr>name = the (c_name c), price = price',
                                        rating = rating', reviews = reviews',
                                        url = the absolute_url, scraped_timestamp = ts\<rparr>)
                       else Inr None)))"

text \<open>
  The \<open>for\<close> loop over the containers: \<open>products_data\<close> grows by the record of a container
  that yields one; a container that is skipped or raises leaves it as it is. \<open>t\<close> counts
  the timestamps taken.
\<close>

fun parse_containers ::
  "(pystr \<Rightarrow> pystr \<Rightarrow> exn + pystr) \<Rightarrow> (nat \<Rightarrow> pystr) \<Rightarrow> container list \<Rightarrow>
   product list \<times> nat \<Rightarrow> product list \<times> nat" where
  "parse_containers join clock [] (products_data, t) = (products_data, t)"
| "parse_containers join clock (c # cs) (products_data, t) =
     (case container_product join (clock t) c of
        Inr (Some product_info) \<Rightarrow>
          parse_containers join clock cs (products_data @ [product_info], Suc t)
      | Inr None \<Rightarrow> parse_containers join clock cs (products_data, t)
      | Inl e \<Rightarrow> parse_containers join clock cs (products_data, t))"

definition parse_product_listings :: "env \<Rightarrow> pystr \<Rightarrow> nat \<Rightarrow> product list \<times> nat" where
  "parse_product_listings E html_content t =
     (let product_containers = soup_containers E html_content
      in if product_containers = [] then ([], t)
         else parse_containers (urljoin E) (now E) product_containers ([], t))"

definition find_next_page_url :: "env \<Rightarrow> pystr \<Rightarrow> exn + pystr option" where
  "find_next_page_url E html_content =
     (case soup_next_href E html_content of
        None \<Rightarrow> Inr None
      | Some next_href \<Rightarrow> map_sum id Some (urljoin E BASE_URL next_href))"


section \<open>scraper.py\<close>

text \<open>
  The controller. The pauses between the steps (\<open>time.sleep\<close>) change no value and are
  left out; \<open>driver.page_source\<close> is a text, as Selenium declares it, or raises.
\<close>

text \<open>\<open>contains needle s\<close> is Python's \<open>needle in s\<close> on texts.\<close>

fun contains :: "pystr \<Rightarrow> pystr \<Rightarrow> bool" where
  "contains needle [] = (needle = [])"
| "contains needle (c # s) = (take (length needle) (c # s) = needle \<or> contains needle s)"

text \<open>
  How one pass through the loop body ends: \<open>Break\<close> leaves the loop, \<open>Continue u\<close> goes
  back to the loop test with \<open>current_url = u\<close> (by \<open>continue\<close> or by reaching the
  end of the body).
\<close>

datatype flow = Break scraper | Continue "pystr option" scraper

definition called :: "call \<Rightarrow> scraper \<Rightarrow> scraper" where
  "called c s = s\<lparr>history := history s @ [c]\<rparr>"

definition logged :: "log_line list \<Rightarrow> scraper \<Rightarrow> scraper" where
  "logged ls s = s\<lparr>log := log s @ ls\<rparr>"

text \<open>
  The recovery the three branches share (lines 107 to 111, 137 to 142 and 150 to 155):
  \<open>current_url\<close> becomes what \<open>find_next_page_url\<close> makes of the page source read
  again, or None when either raises; then \<open>continue\<close>. \<open>ls\<close> is what the branch logs
  when it gives up.
\<close>

definition recover :: "env \<Rightarrow> log_line list \<Rightarrow> scraper \<Rightarrow> flow" where
  "recover E ls s =
     (let s1 = called PageSource s
      in case on_page_source E (history s1) of
           Inl e \<Rightarrow> Continue None (logged ls s1)
         | Inr src \<Rightarrow>
             (case find_next_page_url E src of
                Inl e \<Rightarrow> Continue None (logged ls s1)
              | Inr u \<Rightarrow> Continue u s1))"

text \<open>
  Lines 103 to 132, inside the \<open>try\<close> block: \<open>Inl\<close> is an exception on its way to the
  handlers, with the state it leaves behind.
\<close>

definition page_rest :: "env \<Rightarrow> scraper \<Rightarrow> (exn \<times> scraper) + flow" where
  "page_rest E s =
     (let s1 = called PageSource s
      in case on_page_source E (history s1) of
           Inl e \<Rightarrow> Inl (e, s1)
         | Inr html_content \<Rightarrow>
             if html_content = [] then Inr (recover E [] s1)
             else
               (let (page_products, t) = parse_product_listings E html_content (ticks s1);
                    s2 = s1\<lparr>all_products_data := all_products_data s1 @ page_products,
                            ticks := t\<rparr>
                in case find_next_page_url E html_content of
                     Inl e \<Rightarrow> Inl (e, s2)
                   | Inr current_url \<Rightarrow>
                       if truthy current_url then Inr (Continue current_url s2)
                       else Inr (Break (logged [NoNextLink] s2))))"

text \<open>Lines 84 to 132: the whole \<open>try\<close> block.\<close>

definition page_try :: "env \<Rightarrow> pystr \<Rightarrow> scraper \<Rightarrow> (exn \<times> scraper) + flow" where
  "page_try E current_url s =
     (let s1 = called (Get current_url) s
      in case on_get E (history s1) of
           Some e \<Rightarrow> Inl (e, s1)
         | None \<Rightarrow>
             (let s2 = called WaitUntil s1
              in case on_wait E (history s2) of
                   None \<Rightarrow> page_rest E s2
                 | Some e \<Rightarrow>
                     if e = TimeoutException then
                       (let s3 = called PageSource s2
                        in case on_page_source E (history s3) of
                             Inl e' \<Rightarrow> Inl (e', s3)
                           | Inr src \<Rightarrow>
                               if contains (of_ascii ''no results'') (lower src)
                               then Inr (Break (logged [NoResultsStop] s3))
                               else page_rest E s3)
                     else Inl (e, s2)))"

text \<open>The loop body: the \<open>try\<close> block and its three handlers, in the source's order.\<close>

definition scrape_page :: "env \<Rightarrow> pystr \<Rightarrow> scraper \<Rightarrow> flow" where
  "scrape_page E current_url s =
     (case page_try E current_url s of
        Inr f \<Rightarrow> f
      | Inl (e, s') \<Rightarrow>
          (case e of
             TimeoutException \<Rightarrow> recover E [RecoveryFailed] s'
           | WebDriverException \<Rightarrow> Break (logged [WebDriverError] s')
           | OtherError \<Rightarrow> recover E [RecoveryFailed] s'))"

text \<open>
  The \<open>while\<close> loop of \<open>scrape_products\<close>; the result is \<open>page_count\<close> and the state at
  the loop's exit.
\<close>

function scrape_loop ::
  "env \<Rightarrow> nat \<Rightarrow> pystr option \<Rightarrow> nat \<Rightarrow> scraper \<Rightarrow> nat \<times> scraper" where
  "scrape_loop E max_pages current_url page_count s =
     (if truthy current_url \<and> page_count < max_pages then
        (case scrape_page E (the current_url) s of
           Break s' \<Rightarrow> (Suc page_count, s')
         | Continue u s' \<Rightarrow> scrape_loop E max_pages u (Suc page_count) s')
      else (page_count, s))"
  by pat_completeness auto
termination
  by (relation "measure (\<lambda>(E, max_pages, current_url, page_count, s). max_pages - page_count)")
     auto

declare scrape_loop.simps [simp del]

text \<open>
  Lines 76 to 161 for a given start URL and page limit, and \<open>scrape_products\<close> itself,
  which takes both from the configuration. The value returned is \<open>all_products_data\<close> of
  the state.
\<close>

definition scrape_from :: "env \<Rightarrow> nat \<Rightarrow> pystr \<Rightarrow> scraper \<Rightarrow> scraper" where
  "scrape_from E max_pages start_url s =
     (let (page_count, s') = scrape_loop E max_pages (Some start_url) 0 s
      in if page_count \<ge> max_pages then logged [MaxPagesReached] s' else s')"

definition scrape_products :: "env \<Rightarrow> scraper \<Rightarrow> (exn \<times> scraper) + scraper" where
  "scrape_products E s =
     (case urljoin E BASE_URL CATEGORY_PATH of
        Inl e \<Rightarrow> Inl (e, s)
      | Inr start_url \<Rightarrow> Inr (scrape_from E MAX_PAGES start_url s))"


section \<open>The save functions of utils.py\<close>

text \<open>
  \<open>os.makedirs\<close> stands before the \<open>try\<close> block, so what it raises leaves the function
  (\<open>Inl\<close>); building and writing the file (\<open>ToCsv\<close>, \<open>JsonDump\<close>) is inside it.
\<close>

definition save_to_csv ::
  "env \<Rightarrow> product list \<Rightarrow> pystr \<Rightarrow> scraper \<Rightarrow> (exn \<times> scraper) + scraper" where
  "save_to_csv E data filename s =
     (if data = [] then Inr (logged [NoDataToSave] s)
      else
        (let s1 = called Makedirs s
         in case on_makedirs E (history s1) of
              Some e \<Rightarrow> Inl (e, s1)
            | None \<Rightarrow>
                (let s2 = called (ToCsv data filename) s1
                 in case on_write E (history s2) of
                      None \<Rightarrow> Inr (logged [Saved] s2)
                    | Some e \<Rightarrow> Inr (logged [SaveFailed] s2))))"

definition save_to_json ::
  "env \<Rightarrow> product list \<Rightarrow> pystr \<Rightarrow> scraper \<Rightarrow> (exn \<times> scraper) + scraper" where
  "save_to_json E data filename s =
     (if data = [] then Inr (logged [NoDataToSave] s)
      else
        (let s1 = called Makedirs s
         in case on_makedirs E (history s1) of
              Some e \<Rightarrow> Inl (e, s1)
            | None \<Rightarrow>
                (let s2 = called (JsonDump data filename) s1
                 in case on_write E (history s2) of
                      None \<Rightarrow> Inr (logged [Saved] s2)
                    | Some e \<Rightarrow> Inr (logged [SaveFailed] s2))))"

section \<open>main.py\<close>

text \<open>
  \<open>main\<close> from line 22 on (logging is set up before). Constructing the scraper is the
  call \<open>Setup\<close>, after which the scraper is \<open>new_scraper\<close>; when it raises there is
  no scraper to close. Whatever the \<open>try\<close> block
  raises is caught and logged, and the \<open>finally\<close> block closes the driver.
\<close>

definition new_scraper :: scraper where
  "new_scraper = \<lparr>all_products_data = [], history = [Setup], ticks = 0, log = []\<rparr>"


section \<open>Notions used to state the properties\<close>


text \<open>A number that is at least zero (Python's \<open>v >= 0\<close>, false for a NaN).\<close>

fun non_negative :: "pyfloat \<Rightarrow> bool" where
  "non_negative (Finite q) = (0 \<le> q)"
| "non_negative PosInf = True"
| "non_negative NegInf = False"
| "non_negative NaN = False"

definition price_non_negative :: "pyfloat option \<Rightarrow> bool" where
  "price_non_negative v = (case v of None \<Rightarrow> True | Some x \<Rightarrow> non_negative x)"

definition price_nan_or_non_negative :: "pyfloat option \<Rightarrow> bool" where
  "price_nan_or_non_negative v = (case v of None \<Rightarrow> True | Some x \<Rightarrow> x = NaN \<or> non_negative x)"

text \<open>
  A well-formed container: it has a name, and its link resolves to an absolute URL. A
  container yields a record when it is well formed and its review count does not raise.
  For such a container \<open>product_info\<close> is the record expected of it at timestamp
  \<open>ts\<close>.
\<close>

definition well_formed :: "(pystr \<Rightarrow> pystr \<Rightarrow> exn + pystr) \<Rightarrow> container \<Rightarrow> bool" where
  "well_formed join c \<longleftrightarrow>
     truthy (c_name c) \<and> truthy (c_relative_url c) \<and>
     (case join BASE_URL (the (c_relative_url c)) of Inl e \<Rightarrow> False | Inr u \<Rightarrow> u \<noteq> [])"

definition yields_record :: "(pystr \<Rightarrow> pystr \<Rightarrow> exn + pystr) \<Rightarrow> container \<Rightarrow> bool" where
  "yields_record join c \<longleftrightarrow>
     well_formed join c \<and>
     (case extract_reviews (c_reviews_str c) of Inl e \<Rightarrow> False | Inr n \<Rightarrow> True)"

definition product_info ::
  "(pystr \<Rightarrow> pystr \<Rightarrow> exn + pystr) \<Rightarrow> pystr \<Rightarrow> container \<Rightarrow> product" where
  "product_info join ts c =
     \<lparr>name = the (c_name c),
      price = clean_price (c_price_str c),
      rating = (case extract_rating (c_rating_str c) of Inl e \<Rightarrow> None | Inr r \<Rightarrow> r),
      reviews = (case extract_reviews (c_reviews_str c) of Inl e \<Rightarrow> None | Inr n \<Rightarrow> n),
      url = (case join BASE_URL (the (c_relative_url c)) of Inl e \<Rightarrow> [] | Inr u \<Rightarrow> u),
      scraped_timestamp = ts\<rparr>"

text \<open>
  The pages visited are the \<open>Get\<close> calls made; \<open>flow_state\<close> is the state a pass through
  the loop body leaves.
\<close>

fun is_get :: "call \<Rightarrow> bool" where
  "is_get (Get u) = True"
| "is_get c = False"

definition pages_visited :: "scraper \<Rightarrow> nat" where
  "pages_visited s = length (filter is_get (history s))"

fun flow_state :: "flow \<Rightarrow> scraper" where
  "flow_state (Break s) = s"
| "flow_state (Continue u s) = s"

text \<open>
  \<open>resolved_from E s s' u'\<close>: on the way from state \<open>s\<close> to state \<open>s'\<close> the page source
  was read, and \<open>u'\<close> is what \<open>find_next_page_url\<close> returns for the text read.
\<close>

definition resolved_from :: "env \<Rightarrow> scraper \<Rightarrow> scraper \<Rightarrow> pystr option \<Rightarrow> bool" where
  "resolved_from E s s' u' \<longleftrightarrow>
     (\<exists>a b src. history s' = history s @ a @ [PageSource] @ b
        \<and> on_page_source E (history s @ a @ [PageSource]) = Inr src
        \<and> find_next_page_url E src = Inr u')"

text \<open>The log says that the page limit was reached.\<close>

definition maxed :: "scraper \<Rightarrow> bool" where
  "maxed s \<longleftrightarrow> MaxPagesReached \<in> set (log s)"

section \<open>A small site to run the program on\<close>

text \<open>
  \<open>site_join\<close> stands in for \<open>urljoin\<close> on the references of this site: a reference
  that starts at the root is appended to the base URL, which has no path of its own, and the
  malformed reference \<^verbatim>\<open>http://[\<close> raises ValueError.
\<close>

definition site_join :: "pystr \<Rightarrow> pystr \<Rightarrow> exn + pystr" where
  "site_join base ref = (if ref = of_ascii ''http://['' then Inl OtherError else Inr (base @ ref))"

definition laptop_a :: container where
  "laptop_a = \<lparr>c_name = Some (of_ascii ''Laptop A''),
               c_price_str = Some (of_ascii ''$1,234.50''),
               c_rating_str = Some (of_ascii ''4.5 out of 5 stars''),
               c_reviews_str = Some (of_ascii ''1,234 reviews''),
               c_relative_url = Some (of_ascii ''/p/a'')\<rparr>"

definition laptop_b :: container where
  "laptop_b = \<lparr>c_name = Some (of_ascii ''Laptop B''),
               c_price_str = Some (of_ascii ''nan''),
               c_rating_str = None,
               c_reviews_str = None,
               c_relative_url = Some (of_ascii ''/p/b'')\<rparr>"

definition nameless :: container where
  "nameless = \<lparr>c_name = None, c_price_str = None, c_rating_str = None,
               c_reviews_str = None, c_relative_url = Some (of_ascii ''/p/c'')\<rparr>"

definition bad_link :: container where
  "bad_link = \<lparr>c_name = Some (of_ascii ''Laptop D''), c_price_str = None,
               c_rating_str = None, c_reviews_str = None,
               c_relative_url = Some (of_ascii ''http://['')\<rparr>"

text \<open>
  A container with a name and a link whose review count is written with 4301 digits:
  \<open>12\<close> and then 1433 groups \<open>,345\<close>.
\<close>

definition big_count :: container where
  "big_count = \<lparr>c_name = Some (of_ascii ''Laptop E''), c_price_str = None,
                c_rating_str = None,
                c_reviews_str = Some (of_ascii ''12'' @ concat (replicate 1433 (of_ascii '',345''))
                                      @ of_ascii '' reviews''),
                c_relative_url = Some (of_ascii ''/p/e'')\<rparr>"

text \<open>The URL of the last \<open>Get\<close> in a history of calls (empty when there is none).\<close>

fun last_get :: "call list \<Rightarrow> pystr" where
  "last_get [] = []"
| "last_get (c # h) =
     (case last_get h of
        [] \<Rightarrow> (case c of Get u \<Rightarrow> u | _ \<Rightarrow> [])
      | u # us \<Rightarrow> u # us)"

text \<open>
  The site has two pages. The start URL shows page one: four containers, of which the
  first and the last are well formed, and a next link. That link shows page two: no
  container and no next link. Nothing raises, and the clock stands still.
\<close>

definition page_one_url :: pystr where
  "page_one_url = BASE_URL @ CATEGORY_PATH"

definition page_two_url :: pystr where
  "page_two_url = BASE_URL @ of_ascii ''/p2''"

definition html_one :: pystr where
  "html_one = of_ascii ''one''"

definition html_two :: pystr where
  "html_two = of_ascii ''two''"

definition stamp :: pystr where
  "stamp = of_ascii ''2024-05-01T12:00:00''"

definition page_of :: "pystr \<Rightarrow> pystr" where
  "page_of u = (if u = page_one_url then html_one
               else if u = page_two_url then html_two
               else [])"

definition site :: env where
  "site = \<lparr>on_setup = (\<lambda>h. None),
           on_get = (\<lambda>h. None),
           on_wait = (\<lambda>h. None),
           on_page_source = (\<lambda>h. Inr (page_of (last_get h))),
           on_quit = (\<lambda>h. None),
           on_makedirs = (\<lambda>h. None),
           on_write = (\<lambda>h. None),
           soup_containers = (\<lambda>html. if html = html_one
                                       then [laptop_a, nameless, bad_link, laptop_b] else []),
           soup_next_href = (\<lambda>html. if html = html_one then Some (of_ascii ''/p2'')
                                      else None),
           urljoin = site_join,
           now = (\<lambda>k. stamp)\<rparr>"


definition site_slow :: env where
  "site_slow = site\<lparr>on_get := (\<lambda>h. Some TimeoutException)\<rparr>"

definition site_empty :: env where
  "site_empty = site\<lparr>on_wait := (\<lambda>h. Some TimeoutException),
                       on_page_source := (\<lambda>h. Inr (of_ascii ''Sorry: No Results''))\<rparr>"

definition site_waiting :: env where
  "site_waiting = site\<lparr>on_wait := (\<lambda>h. Some TimeoutException)\<rparr>"

definition site_readonly :: env where
  "site_readonly = site\<lparr>on_makedirs := (\<lambda>h. Some OtherError)\<rparr>"

definition site_full :: env where
  "site_full = site\<lparr>on_write := (\<lambda>h. Some OtherError)\<rparr>"


text \<open>
  The site on a day when page two never loads: every fetch of its URL times out, and the
  browser goes on showing page one, whose next link is that URL. \<open>page_one_done\<close> is
  the state after the pass over page one.
\<close>

definition page_one_done :: scraper where
  "page_one_done =
     \<lparr>all_products_data = [product_info site_join stamp laptop_a,
                            product_info site_join stamp laptop_b],
      history = [Setup, Get page_one_url, WaitUntil, PageSource],
      ticks = 2, log = []\<rparr>"

definition site_stall :: env where
  "site_stall = site\<lparr>on_get := (\<lambda>h. if last_get h = page_two_url then Some TimeoutException
                                        else None),
                       on_page_source := (\<lambda>h. Inr html_one)\<rparr>"

section \<open>Properties\<close>

lemmas text_defs = of_ascii_def is_digit_def is_space_def lower_def lower_char_def strip_def
  int_of_digits_def

lemmas float_defs = float_py_def absfloatvalue_def number_def digitpart_def exponent_def
  scale10_def

lemmas reviews_defs = extract_reviews_def reviews_match_def reviews_pattern_def
  reviews_alt1_def reviews_alt2_def int_py_def MAX_STR_DIGITS_def


subsection \<open>Review counts\<close>

lemma extract_reviews_separators:
  "extract_reviews (Some (of_ascii ''1,234 reviews'')) = Inr (Some 1234)"
  by (simp add: reviews_defs text_defs)

lemma re_search_no_digit:
  "\<forall>c \<in> set s. \<not> is_digit c \<Longrightarrow> re_search reviews_pattern s = None"
  by (induction s)
     (simp_all add: reviews_pattern_def reviews_alt1_def reviews_alt2_def takeWhile_eq_Nil_iff
        split: option.splits)

lemma extract_reviews_no_numeral:
  "\<forall>c \<in> set s. \<not> is_digit c \<Longrightarrow> extract_reviews (Some s) = Inr None"
  by (simp add: extract_reviews_def reviews_match_def re_search_no_digit)

text \<open>
  C2. A review text whose first numeral is a plain run of five digits: the first
  alternative of the pattern matches its first three digits, the alternative for plain runs
  is never tried, and the count extracted from \<open>12345 reviews\<close> is 123.
\<close>

theorem extract_reviews_plain_run:
  "extract_reviews (Some (of_ascii ''12345 reviews'')) = Inr (Some 123)"
  by (simp add: reviews_defs text_defs)

subsection \<open>The sign of a parsed number\<close>

lemma digitpart_rest_digits:
  "digitpart_rest s = (ds, r) \<Longrightarrow> list_all is_digit ds"
proof (induction s arbitrary: ds r rule: digitpart_rest.induct)
  case (1 c d s)
  then show ?case
    by (auto split: if_splits prod.splits)
next
  case (2 c)
  then show ?case by (auto split: if_splits)
next
  case 3
  then show ?case by simp
qed

lemma digitpart_digits:
  "digitpart s = Some (ds, r) \<Longrightarrow> list_all is_digit ds"
  by (auto simp: digitpart_def split: list.splits if_splits prod.splits
           dest: digitpart_rest_digits)

lemma number_digits:
  "number s = Some (i, f, r) \<Longrightarrow> list_all is_digit i \<and> list_all is_digit f"
  by (auto simp: number_def split: option.splits list.splits if_splits prod.splits
           dest: digitpart_digits)

lemma foldl_digits_nonneg:
  "list_all is_digit ds \<Longrightarrow> 0 \<le> a \<Longrightarrow> 0 \<le> foldl (\<lambda>a c. 10 * a + (int c - 48)) a ds"
  by (induction ds arbitrary: a) (auto simp: is_digit_def)

lemma int_of_digits_nonneg: "list_all is_digit ds \<Longrightarrow> 0 \<le> int_of_digits ds"
  by (simp add: int_of_digits_def foldl_digits_nonneg)

lemma scale10_nonneg: "0 \<le> m \<Longrightarrow> 0 \<le> scale10 m e"
  by (simp add: scale10_def)

lemma absfloatvalue_sign:
  assumes "absfloatvalue s = Some v"
  shows "v = NaN \<or> non_negative v"
proof (cases "lower s = of_ascii ''inf'' \<or> lower s = of_ascii ''infinity''")
  case True
  with assms show ?thesis by (simp add: absfloatvalue_def)
next
  case notinf: False
  show ?thesis
  proof (cases "lower s = of_ascii ''nan''")
    case True
    with assms notinf show ?thesis by (simp add: absfloatvalue_def)
  next
    case False
    with assms notinf obtain i f r e where n: "number s = Some (i, f, r)"
      and v: "v = Finite (scale10 (of_int (int_of_digits (i @ f)) / 10 ^ length f) e)"
      by (auto simp: absfloatvalue_def split: option.splits)
    from number_digits [OF n] have "list_all is_digit (i @ f)" by simp
    then have "0 \<le> int_of_digits (i @ f)" by (rule int_of_digits_nonneg)
    then have "(0::rat) \<le> of_int (int_of_digits (i @ f)) / 10 ^ length f" by simp
    then show ?thesis unfolding v by (simp add: scale10_nonneg)
  qed
qed

lemma set_strip: "set (strip s) \<subseteq> set s"
proof -
  have "set (strip s) \<subseteq> set (dropWhile is_space s)"
    unfolding strip_def using set_dropWhileD by fastforce
  also have "\<dots> \<subseteq> set s" using set_dropWhileD by fastforce
  finally show ?thesis .
qed

lemma float_py_sign:
  assumes "45 \<notin> set s" and "float_py s = Some v"
  shows "v = NaN \<or> non_negative v"
proof -
  from assms(1) set_strip [of s] have no: "45 \<notin> set (strip s)" by blast
  from assms(2) obtain g t where st: "strip s = g # t"
    by (auto simp: float_py_def split: list.splits)
  with no have "g \<noteq> 45" by auto
  with assms(2) st have "absfloatvalue t = Some v \<or> absfloatvalue (g # t) = Some v"
    by (auto simp: float_py_def split: if_splits)
  then show ?thesis using absfloatvalue_sign by blast
qed

lemma clean_price_sign:
  "clean_price p = Some v \<Longrightarrow> v = NaN \<or> non_negative v"
proof -
  assume a: "clean_price p = Some v"
  then obtain s where p: "p = Some s" by (cases p) (auto simp: clean_price_def)
  define c0 where "c0 = filter (\<lambda>c. \<not> price_noise c) (strip s)"
  define c1 where "c1 = (if 45 \<in> set c0 then takeWhile (\<lambda>c. c \<noteq> 45) c0 else c0)"
  have no: "45 \<notin> set c1"
    unfolding c1_def by (auto dest: set_takeWhileD)
  from a p have "v = Finite 0 \<or> float_py c1 = Some v"
    by (auto simp: clean_price_def Let_def c0_def c1_def split: if_splits)
  then show ?thesis using float_py_sign [OF no] by auto
qed

subsection \<open>The price cleaner\<close>












subsection \<open>The rating is always readable\<close>

lemma digitpart_rest_run:
  "list_all is_digit d \<Longrightarrow> r = [] \<or> (\<not> is_digit (hd r) \<and> hd r \<noteq> 95)
   \<Longrightarrow> digitpart_rest (d @ r) = (d, r)"
proof (induction d)
  case Nil
  then show ?case by (cases r rule: digitpart_rest.cases) auto
next
  case (Cons x d)
  show ?case
  proof (cases "d @ r")
    case Nil
    with Cons.prems show ?thesis by simp
  next
    case (Cons y s)
    from Cons.IH Cons.prems have "digitpart_rest (d @ r) = (d, r)" by simp
    with Cons Cons.prems show ?thesis by simp
  qed
qed

lemma digitpart_run:
  "list_all is_digit d \<Longrightarrow> d \<noteq> [] \<Longrightarrow> r = [] \<or> (\<not> is_digit (hd r) \<and> hd r \<noteq> 95)
   \<Longrightarrow> digitpart (d @ r) = Some (d, r)"
  by (cases d) (simp_all add: digitpart_def digitpart_rest_run)

lemma strip_id: "s \<noteq> [] \<Longrightarrow> \<not> is_space (hd s) \<Longrightarrow> \<not> is_space (last s) \<Longrightarrow> strip s = s"
proof -
  assume a: "s \<noteq> []" "\<not> is_space (hd s)" "\<not> is_space (last s)"
  then have 1: "dropWhile is_space s = s"
    by (simp add: dropWhile_eq_self_iff)
  from a have "hd (rev s) = last s" "rev s \<noteq> []"
    by (simp_all add: hd_rev)
  with a have "dropWhile is_space (rev s) = rev s"
    by (simp add: dropWhile_eq_self_iff)
  with 1 show ?thesis
    by (simp add: strip_def)
qed

lemma digit_facts: "is_digit c \<Longrightarrow> \<not> is_space c \<and> c \<noteq> 45 \<and> c \<noteq> 43 \<and> c \<noteq> 46 \<and> c \<noteq> 95 \<and> lower_char c = c \<and> c \<noteq> 105 \<and> c \<noteq> 110"
  by (auto simp: is_digit_def is_space_def lower_char_def)

lemma absfloatvalue_number:
  "s \<noteq> [] \<Longrightarrow> is_digit (hd s) \<Longrightarrow> number s = Some (i, f, []) 
   \<Longrightarrow> absfloatvalue s \<noteq> None"
  by (cases s) (auto simp: absfloatvalue_def lower_def of_ascii_def exponent_def dest: digit_facts)

lemma float_py_digits:
  assumes "s \<noteq> []" "is_digit (hd s)" "is_digit (last s)" "number s = Some (i, f, [])"
  shows "float_py s \<noteq> None"
proof -
  from assms have "strip s = s" by (simp add: strip_id digit_facts)
  moreover from assms obtain c t where "s = c # t" "c \<noteq> 45" "c \<noteq> 43"
    by (cases s) (auto dest: digit_facts)
  ultimately show ?thesis
    using absfloatvalue_number [OF assms(1,2,4)] by (simp add: float_py_def)
qed

lemma rating_pattern_float:
  assumes "rating_pattern s = Some g"
  shows "float_py g \<noteq> None"
proof -
  define d where "d = takeWhile is_digit s"
  define r where "r = dropWhile is_digit s"
  have dd: "list_all is_digit d" by (simp add: d_def list_all_iff) (meson set_takeWhileD)
  from assms have ne: "d \<noteq> []" by (auto simp: rating_pattern_def d_def Let_def split: if_splits)
  have hd_d: "is_digit (hd d)" "is_digit (last d)" using dd ne by (auto simp: list_all_iff)
  have num_d: "number d = Some (d, [], [])"
    using digitpart_run [OF dd ne, of "[]"] by (simp add: number_def)
  show ?thesis
  proof (cases "g = d")
    case True
    then show ?thesis using float_py_digits [OF ne hd_d num_d] by simp
  next
    case False
    with assms obtain r' where rr: "r = 46 # r'" and f: "takeWhile is_digit r' \<noteq> []"
      and g: "g = d @ 46 # takeWhile is_digit r'"
      by (auto simp: rating_pattern_def d_def r_def Let_def split: if_splits list.splits)
    define f where "f = takeWhile is_digit r'"
    have df: "list_all is_digit f" by (simp add: f_def list_all_iff) (meson set_takeWhileD)
    have fne: "f \<noteq> []" using \<open>takeWhile is_digit r' \<noteq> []\<close> by (simp add: f_def)
    have "digitpart (d @ 46 # f) = Some (d, 46 # f)"
      by (rule digitpart_run [OF dd ne]) (simp add: is_digit_def)
    moreover have "digitpart f = Some (f, [])"
      using digitpart_run [OF df fne, of "[]"] by simp
    ultimately have num: "number g = Some (d, f, [])"
      by (simp add: number_def g f_def)
    have "g \<noteq> []" "is_digit (hd g)" "is_digit (last g)"
      using ne hd_d df fne by (auto simp: g f_def[symmetric] list_all_iff)
    then show ?thesis using float_py_digits num by blast
  qed
qed

lemma extract_rating_no_raise: "extract_rating rs \<noteq> Inl e"
proof -
  have fl: "float_py g \<noteq> None" if "re_search rating_pattern s = Some g" for s g
    using that
  proof (induction s)
    case Nil
    then show ?case by (simp add: rating_pattern_float)
  next
    case (Cons c s)
    then show ?case by (auto split: option.splits dest: rating_pattern_float)
  qed
  have "(case float_py g of None \<Rightarrow> Inl OtherError | Some v \<Rightarrow> Inr (Some v)) \<noteq> Inl e"
    if h: "re_search rating_pattern s = Some g" for s g
    using fl [OF h] by (cases "float_py g") auto
  then show ?thesis
    unfolding extract_rating_def
    by (cases "if truthy rs then re_search rating_pattern (the rs) else None")
       (auto split: if_splits)
qed


subsection \<open>Records come from the containers that yield one\<close>


lemma container_product_yields:
  assumes "yields_record join c"
  shows "container_product join ts c = Inr (Some (product_info join ts c))"
proof -
  obtain r where r: "extract_rating (c_rating_str c) = Inr r"
    using extract_rating_no_raise [of "c_rating_str c"]
    by (cases "extract_rating (c_rating_str c)") auto
  from assms obtain n where n: "extract_reviews (c_reviews_str c) = Inr n"
    by (auto simp: yields_record_def split: sum.splits)
  from assms obtain u where u: "join BASE_URL (the (c_relative_url c)) = Inr u" "u \<noteq> []"
    by (auto simp: yields_record_def well_formed_def split: sum.splits)
  from assms have t: "truthy (c_name c)" "truthy (c_relative_url c)"
    by (simp_all add: yields_record_def well_formed_def)
  have ts: "truthy (Some u)" using u by (simp add: truthy_def)
  show ?thesis
    by (simp add: container_product_def product_info_def Let_def r n u t ts)
qed

lemma container_product_other:
  assumes "\<not> yields_record join c"
  shows "container_product join ts c \<noteq> Inr (Some p)"
proof (cases "extract_reviews (c_reviews_str c)")
  case (Inl e)
  then show ?thesis
    by (auto simp: container_product_def Let_def split: sum.splits)
next
  case (Inr n)
  with assms have nw: "\<not> well_formed join c" by (simp add: yields_record_def)
  show ?thesis
  proof (cases "truthy (c_relative_url c)")
    case True
    with nw show ?thesis
      by (cases "join BASE_URL (the (c_relative_url c))")
         (auto simp: well_formed_def container_product_def Let_def truthy_def split: sum.splits)
  next
    case False
    then show ?thesis
      by (auto simp: container_product_def Let_def truthy_def split: sum.splits)
  qed
qed

lemma parse_containers_eq:
  "parse_containers join clock cs (acc, t) =
     (acc @ map (\<lambda>(k, c). product_info join (clock k) c)
                (enumerate t (filter (yields_record join) cs)),
      t + length (filter (yields_record join) cs))"
proof (induction cs arbitrary: acc t)
  case Nil
  then show ?case by simp
next
  case (Cons c cs)
  show ?case
  proof (cases "yields_record join c")
    case True
    then show ?thesis
      by (simp add: container_product_yields Cons.IH)
  next
    case False
    show ?thesis
    proof (cases "container_product join (clock t) c")
      case (Inl e)
      with False show ?thesis by (simp add: Cons.IH)
    next
      case (Inr b)
      with container_product_other [OF False, of "clock t"] have "b = None"
        by (cases b) auto
      with Inr False show ?thesis by (simp add: Cons.IH)
    qed
  qed
qed

lemma parse_product_listings_eq:
  "parse_product_listings E html t =
     (map (\<lambda>(k, c). product_info (urljoin E) (now E k) c)
          (enumerate t (filter (yields_record (urljoin E)) (soup_containers E html))),
      t + length (filter (yields_record (urljoin E)) (soup_containers E html)))"
  by (simp add: parse_product_listings_def parse_containers_eq Let_def)


lemma parsed_product_origin:
  assumes "p \<in> set (fst (parse_product_listings E html t))"
  shows "\<exists>k c. yields_record (urljoin E) c \<and> c \<in> set (soup_containers E html)
               \<and> p = product_info (urljoin E) (now E k) c"
proof -
  from assms obtain kc
    where kc: "kc \<in> set (enumerate t (filter (yields_record (urljoin E)) (soup_containers E html)))"
    and p: "p = (\<lambda>(k, c). product_info (urljoin E) (now E k) c) kc"
    by (auto simp: parse_product_listings_eq)
  obtain k c where e: "kc = (k, c)" by (cases kc)
  from kc have "snd kc \<in> set (map snd (enumerate t (filter (yields_record (urljoin E)) (soup_containers E html))))"
    by (simp only: set_map) (rule imageI)
  with e have "c \<in> set (filter (yields_record (urljoin E)) (soup_containers E html))"
    by (simp only: map_snd_enumerate snd_conv)
  with e p show ?thesis
    by auto
qed

subsection \<open>A review count too long for int\<close>

lemma comma_groups_run:
  "comma_groups (concat (replicate n (of_ascii '',345'')) @ of_ascii '' reviews'')
     = concat (replicate n (of_ascii '',345''))"
  by (induction n) (simp_all add: of_ascii_def is_digit_def)

lemma filter_commas_run:
  "filter (\<lambda>c. c \<noteq> 44) (concat (replicate n (of_ascii '',345'')))
     = concat (replicate n (of_ascii ''345''))"
  by (induction n) (simp_all add: of_ascii_def)

lemma length_run: "length (concat (replicate n (of_ascii ''345''))) = 3 * n"
  by (induction n) (simp_all add: of_ascii_def)

lemma reviews_match_run:
  "reviews_match (Some (of_ascii ''12'' @ concat (replicate (Suc n) (of_ascii '',345''))
                        @ of_ascii '' reviews''))
     = Some (of_ascii ''12'' @ concat (replicate (Suc n) (of_ascii '',345'')))"
proof -
  have "comma_groups (concat (replicate (Suc n) (of_ascii '',345'')) @ of_ascii '' reviews'')
     = concat (replicate (Suc n) (of_ascii '',345''))"
    by (rule comma_groups_run)
  then have "reviews_alt1 (of_ascii ''12'' @ concat (replicate (Suc n) (of_ascii '',345''))
                        @ of_ascii '' reviews'')
     = Some (of_ascii ''12'' @ concat (replicate (Suc n) (of_ascii '',345'')))"
    by (simp add: reviews_alt1_def of_ascii_def is_digit_def)
  then show ?thesis
    by (simp add: reviews_match_def reviews_pattern_def of_ascii_def [of "''12''"])
qed

lemma extract_reviews_run:
  "extract_reviews (Some (of_ascii ''12'' @ concat (replicate (Suc n) (of_ascii '',345''))
                        @ of_ascii '' reviews''))
     = (if 4300 < 2 + 3 * Suc n then Inl OtherError
        else Inr (Some (int_of_digits (of_ascii ''12'' @ concat (replicate (Suc n) (of_ascii ''345''))))))"
proof -
  have f: "filter (\<lambda>c. c \<noteq> 44) (of_ascii ''12'' @ concat (replicate (Suc n) (of_ascii '',345'')))
        = of_ascii ''12'' @ concat (replicate (Suc n) (of_ascii ''345''))"
    unfolding filter_append filter_commas_run by (simp add: of_ascii_def)
  have l: "length (of_ascii ''12'' @ concat (replicate (Suc n) (of_ascii ''345''))) = 2 + 3 * Suc n"
    unfolding length_append length_run by (simp add: of_ascii_def)
  show ?thesis
    unfolding extract_reviews_def reviews_match_run option.case f int_py_def l MAX_STR_DIGITS_def
    by simp
qed

lemma big_count_raises: "extract_reviews (c_reviews_str big_count) = Inl OtherError"
proof -
  have "(1433::nat) = Suc 1432" by simp
  then have "c_reviews_str big_count =
      Some (of_ascii ''12'' @ concat (replicate (Suc 1432) (of_ascii '',345''))
            @ of_ascii '' reviews'')"
    by (simp only: big_count_def container.simps)
  then show ?thesis
    by (simp only: extract_reviews_run) simp
qed

subsection \<open>The example site, page one\<close>

lemma site_well_formed:
  "well_formed site_join laptop_a" "well_formed site_join laptop_b"
  "\<not> well_formed site_join nameless" "\<not> well_formed site_join bad_link"
  "well_formed site_join big_count"
  by (simp_all add: well_formed_def site_join_def laptop_a_def laptop_b_def nameless_def
        bad_link_def big_count_def truthy_def of_ascii_def)

lemma site_yields:
  "yields_record site_join laptop_a" "yields_record site_join laptop_b"
  "\<not> yields_record site_join nameless" "\<not> yields_record site_join bad_link"
  "\<not> yields_record site_join big_count"
proof -
  have "extract_reviews (c_reviews_str laptop_a) = Inr (Some 1234)"
    by (simp add: laptop_a_def extract_reviews_separators)
  then show "yields_record site_join laptop_a"
    by (simp add: yields_record_def site_well_formed)
  have "extract_reviews (c_reviews_str laptop_b) = Inr None"
    by (simp add: laptop_b_def extract_reviews_def reviews_match_def)
  then show "yields_record site_join laptop_b"
    by (simp add: yields_record_def site_well_formed)
  show "\<not> yields_record site_join nameless" "\<not> yields_record site_join bad_link"
    by (simp_all add: yields_record_def site_well_formed)
  show "\<not> yields_record site_join big_count"
    by (simp add: yields_record_def big_count_raises)
qed

lemma site_one_filter:
  "filter (yields_record (urljoin site)) (soup_containers site html_one)
        = [laptop_a, laptop_b]"
  by (simp add: site_def site_yields)

lemma site_one_parsed:
  "fst (parse_product_listings site html_one 0) =
     [product_info site_join stamp laptop_a,
      product_info site_join stamp laptop_b]"
proof -
  have e: "urljoin site = site_join" "now site = (\<lambda>k. stamp)"
    by (simp_all add: site_def)
  have "filter (yields_record site_join) (soup_containers site html_one)
        = [laptop_a, laptop_b]"
    using site_one_filter by (simp only: e)
  then show ?thesis
    by (simp add: parse_product_listings_eq e)
qed

lemma site_one_prices:
  "map price (fst (parse_product_listings site html_one 0)) =
     [Some (Finite 1234.5), Some NaN]"
  unfolding site_one_parsed
  by (simp add: product_info_def laptop_a_def laptop_b_def
        clean_price_def price_noise_def text_defs float_defs)

lemma site_one_names:
  "map name (fst (parse_product_listings site html_one 0)) =
     [of_ascii ''Laptop A'', of_ascii ''Laptop B'']"
  unfolding site_one_parsed
  by (simp add: product_info_def laptop_a_def laptop_b_def)




subsection \<open>The extractor\<close>




subsection \<open>Prices\<close>

text \<open>
  C9, as the code has it. The price cleaner returns None, a NaN, or a number that is at least
  zero (an infinity included), and so does the price of every record the extractor builds:
  a negative price is never produced.
\<close>

theorem price_never_negative:
  "price_nan_or_non_negative (clean_price p)
   \<and> (\<forall>r \<in> set (fst (parse_product_listings E html t)). price_nan_or_non_negative (price r))"
proof (intro conjI ballI)
  show c: "price_nan_or_non_negative (clean_price p)" for p
    using clean_price_sign [of p]
    by (cases "clean_price p") (auto simp: price_nan_or_non_negative_def)
  fix r
  assume "r \<in> set (fst (parse_product_listings E html t))"
  from parsed_product_origin [OF this] obtain k x
    where "r = product_info (urljoin E) (now E k) x" by blast
  then have "price r = clean_price (c_price_str x)"
    by (simp add: product_info_def)
  with c show "price_nan_or_non_negative (price r)" by simp
qed

theorem price_never_negative_witness:
  "product_info site_join stamp laptop_a
       \<in> set (fst (parse_product_listings site html_one 0))
   \<and> price_nan_or_non_negative
        (price (product_info site_join stamp laptop_a))
   \<and> price_nan_or_non_negative (clean_price (Some (of_ascii ''$1,234.50'')))"
proof -
  note w = price_never_negative [of "Some (of_ascii ''$1,234.50'')" site html_one 0]
  have i: "product_info site_join stamp laptop_a
       \<in> set (fst (parse_product_listings site html_one 0))"
    by (simp only: site_one_parsed) simp
  from w [THEN conjunct2] i
  have "price_nan_or_non_negative
        (price (product_info site_join stamp laptop_a))"
    by (rule bspec)
  with i w [THEN conjunct1] show ?thesis by blast
qed

text \<open>
  C9 as stated fails on the price text \<open>nan\<close>: \<open>float\<close> accepts it, and the price is a
  NaN, which is not a number at least zero. Page one of the example site carries such a
  price.
\<close>

theorem price_nan_counterexample:
  "clean_price (Some (of_ascii ''nan'')) = Some NaN
   \<and> \<not> price_non_negative (clean_price (Some (of_ascii ''nan'')))
   \<and> map price (fst (parse_product_listings site html_one 0)) =
       [Some (Finite 1234.5), Some NaN]"
proof -
  have "clean_price (Some (of_ascii ''nan'')) = Some NaN"
    by (simp add: clean_price_def price_noise_def text_defs float_defs)
  then show ?thesis
    by (simp add: price_non_negative_def site_one_prices)
qed


subsection \<open>Every pass through the loop body fetches one page\<close>

lemma pages_called [simp]:
  "pages_visited (called c s) = (if is_get c then Suc (pages_visited s) else pages_visited s)"
  by (simp add: pages_visited_def called_def)

lemma pages_logged [simp]: "pages_visited (logged ls s) = pages_visited s"
  by (simp add: pages_visited_def logged_def)

lemma pages_data [simp]:
  "pages_visited (s\<lparr>all_products_data := d, ticks := t\<rparr>) = pages_visited s"
  by (simp add: pages_visited_def)

lemma pages_recover [simp]: "pages_visited (flow_state (recover E ls s)) = pages_visited s"
  by (simp add: recover_def Let_def split: sum.splits)

lemma pages_page_rest_raise:
  "page_rest E s = Inl (e, s') \<Longrightarrow> pages_visited s' = pages_visited s"
  by (auto simp: page_rest_def Let_def split: sum.splits prod.splits if_splits)

lemma pages_page_rest:
  "page_rest E s = Inr f \<Longrightarrow> pages_visited (flow_state f) = pages_visited s"
  by (auto simp: page_rest_def Let_def split: sum.splits prod.splits if_splits)

lemma pages_page_try_raise:
  "page_try E u s = Inl (e, s') \<Longrightarrow> pages_visited s' = Suc (pages_visited s)"
  by (auto simp: page_try_def Let_def split: sum.splits option.splits if_splits
           dest!: pages_page_rest_raise)

lemma pages_page_try:
  "page_try E u s = Inr f \<Longrightarrow> pages_visited (flow_state f) = Suc (pages_visited s)"
  by (auto simp: page_try_def Let_def split: sum.splits option.splits if_splits
           dest!: pages_page_rest)

lemma pages_scrape_page:
  "pages_visited (flow_state (scrape_page E u s)) = Suc (pages_visited s)"
proof (cases "page_try E u s")
  case (Inl a)
  obtain e s' where "a = (e, s')" by (cases a)
  with Inl pages_page_try_raise [of E u s e s'] show ?thesis
    by (cases e) (simp_all add: scrape_page_def)
next
  case (Inr f)
  with pages_page_try [of E u s f] show ?thesis
    by (simp add: scrape_page_def)
qed

lemma scrape_loop_pages:
  "scrape_loop E B cu pc s = (pc', s') \<Longrightarrow>
     pages_visited s' + pc = pages_visited s + pc' \<and> pc \<le> pc' \<and> (pc \<le> B \<longrightarrow> pc' \<le> B)"
proof (induction E B cu pc s arbitrary: pc' s' rule: scrape_loop.induct)
  case (1 E B cu pc s)
  show ?case
  proof (cases "truthy cu \<and> pc < B")
    case False
    with "1.prems" show ?thesis by (simp add: scrape_loop.simps)
  next
    case True
    show ?thesis
    proof (cases "scrape_page E (the cu) s")
      case (Break s1)
      with True "1.prems" pages_scrape_page [of E "the cu" s] show ?thesis
        by (auto simp: scrape_loop.simps)
    next
      case (Continue u s1)
      with True "1.prems" have "scrape_loop E B u (Suc pc) s1 = (pc', s')"
        by (simp add: scrape_loop.simps)
      from "1.IH" [OF True Continue this] pages_scrape_page [of E "the cu" s] Continue True
      show ?thesis by auto
    qed
  qed
qed


subsection \<open>The crawl of the example site\<close>

lemma site_urls:
  "page_one_url \<noteq> []" "page_two_url \<noteq> []" "page_one_url \<noteq> page_two_url"
  "html_one \<noteq> []" "html_two \<noteq> []" "html_two \<noteq> html_one"
  by (simp_all add: page_one_url_def page_two_url_def html_one_def html_two_def BASE_URL_def
        CATEGORY_PATH_def of_ascii_def)

lemma site_pages: "page_of page_one_url = html_one" "page_of page_two_url = html_two"
  using site_urls by (simp_all add: page_of_def)

lemma site_start: "urljoin site BASE_URL CATEGORY_PATH = Inr page_one_url"
  by (simp add: site_def site_join_def page_one_url_def CATEGORY_PATH_def of_ascii_def)

lemma site_next:
  "find_next_page_url site html_one = Inr (Some page_two_url)"
  "find_next_page_url site html_two = Inr None"
  using site_urls
  by (simp_all add: find_next_page_url_def site_def site_join_def page_two_url_def of_ascii_def)

lemma site_parse:
  "parse_product_listings site html_one t =
     ([product_info site_join stamp laptop_a, product_info site_join stamp laptop_b], t + 2)"
  "parse_product_listings site html_two t = ([], t)"
proof -
  have e: "urljoin site = site_join" "now site = (\<lambda>k. stamp)"
    by (simp_all add: site_def)
  have "filter (yields_record site_join) (soup_containers site html_one) = [laptop_a, laptop_b]"
    using site_one_filter by (simp only: e)
  then show "parse_product_listings site html_one t =
     ([product_info site_join stamp laptop_a, product_info site_join stamp laptop_b], t + 2)"
    by (simp add: parse_product_listings_eq e)
  show "parse_product_listings site html_two t = ([], t)"
    using site_urls by (simp add: parse_product_listings_def site_def)
qed

lemma last_get_Cons:
  "last_get (c # h) = (if last_get h = [] then (case c of Get u \<Rightarrow> u | _ \<Rightarrow> []) else last_get h)"
  by (cases "last_get h") simp_all

lemma site_source: "on_page_source site h = Inr (page_of (last_get h))"
  by (simp add: site_def)

lemma site_quiet: "on_get site h = None" "on_wait site h = None"
  by (simp_all add: site_def)

lemmas crawl_defs = scrape_page_def page_try_def page_rest_def recover_def Let_def called_def
  logged_def truthy_def

lemma site_page_one:
  "scrape_page site page_one_url new_scraper =
     Continue (Some page_two_url)
       \<lparr>all_products_data = [product_info site_join stamp laptop_a,
                              product_info site_join stamp laptop_b],
        history = [Setup, Get page_one_url, WaitUntil, PageSource],
        ticks = 2, log = []\<rparr>"
  by (simp add: crawl_defs new_scraper_def site_quiet site_source last_get_Cons site_urls
        site_pages site_next site_parse del: last_get.simps(2))

lemma site_page_two:
  "scrape_page site page_two_url
       \<lparr>all_products_data = [product_info site_join stamp laptop_a,
                              product_info site_join stamp laptop_b],
        history = [Setup, Get page_one_url, WaitUntil, PageSource],
        ticks = 2, log = []\<rparr> =
     Break
       \<lparr>all_products_data = [product_info site_join stamp laptop_a,
                              product_info site_join stamp laptop_b],
        history = [Setup, Get page_one_url, WaitUntil, PageSource,
                   Get page_two_url, WaitUntil, PageSource],
        ticks = 2, log = [NoNextLink]\<rparr>"
  by (simp add: crawl_defs site_quiet site_source last_get_Cons site_urls
        site_pages site_next site_parse del: last_get.simps(2))

lemma site_loop:
  "1 < B \<Longrightarrow> scrape_loop site B (Some page_one_url) 0 new_scraper =
     (2, \<lparr>all_products_data = [product_info site_join stamp laptop_a,
                              product_info site_join stamp laptop_b],
        history = [Setup, Get page_one_url, WaitUntil, PageSource,
                   Get page_two_url, WaitUntil, PageSource],
        ticks = 2, log = [NoNextLink]\<rparr>)"
  by (simp add: scrape_loop.simps [of site B "Some page_one_url"]
        scrape_loop.simps [of site B "Some page_two_url"] truthy_def site_urls
        site_page_one site_page_two)

lemma site_loop_one:
  "scrape_loop site 1 (Some page_one_url) 0 new_scraper =
     (1, \<lparr>all_products_data = [product_info site_join stamp laptop_a,
                              product_info site_join stamp laptop_b],
        history = [Setup, Get page_one_url, WaitUntil, PageSource],
        ticks = 2, log = []\<rparr>)"
  by (simp add: scrape_loop.simps [of site "Suc 0" "Some page_one_url"]
        scrape_loop.simps [of site "Suc 0" "Some page_two_url"] truthy_def site_urls
        site_page_one)


subsection \<open>The page budget\<close>

lemma scrape_loop_enter:
  "truthy cu \<Longrightarrow> pc < B \<Longrightarrow>
     scrape_loop E B cu pc s =
       (case scrape_page E (the cu) s of
          Break s' \<Rightarrow> (Suc pc, s')
        | Continue u s' \<Rightarrow> scrape_loop E B u (Suc pc) s')"
  by (subst scrape_loop.simps) simp

lemma scrape_loop_exit:
  "\<not> (truthy cu \<and> pc < B) \<Longrightarrow> scrape_loop E B cu pc s = (pc, s)"
  by (subst scrape_loop.simps) auto

lemma maxed_called [simp]: "maxed (called c s) = maxed s"
  by (simp add: maxed_def called_def)

lemma maxed_logged [simp]: "maxed (logged ls s) = (maxed s \<or> MaxPagesReached \<in> set ls)"
  by (auto simp: maxed_def logged_def)

lemma maxed_data [simp]: "maxed (s\<lparr>all_products_data := d, ticks := t\<rparr>) = maxed s"
  by (simp add: maxed_def)

lemma maxed_recover:
  "MaxPagesReached \<notin> set ls \<Longrightarrow> maxed (flow_state (recover E ls s)) = maxed s"
  by (simp add: recover_def Let_def split: sum.splits)

lemma maxed_page_rest_raise: "page_rest E s = Inl (e, s') \<Longrightarrow> maxed s' = maxed s"
  by (auto simp: page_rest_def Let_def split: sum.splits prod.splits if_splits)

lemma maxed_page_rest: "page_rest E s = Inr f \<Longrightarrow> maxed (flow_state f) = maxed s"
  by (auto simp: page_rest_def Let_def maxed_recover split: sum.splits prod.splits if_splits)

lemma maxed_page_try_raise: "page_try E u s = Inl (e, s') \<Longrightarrow> maxed s' = maxed s"
  by (auto simp: page_try_def Let_def split: sum.splits option.splits if_splits
           dest!: maxed_page_rest_raise)

lemma maxed_page_try: "page_try E u s = Inr f \<Longrightarrow> maxed (flow_state f) = maxed s"
  by (auto simp: page_try_def Let_def split: sum.splits option.splits if_splits
           dest!: maxed_page_rest)

lemma maxed_scrape_page: "maxed (flow_state (scrape_page E u s)) = maxed s"
proof (cases "page_try E u s")
  case (Inl a)
  obtain e s' where "a = (e, s')" by (cases a)
  with Inl maxed_page_try_raise [of E u s e s'] show ?thesis
    by (cases e) (simp_all add: scrape_page_def maxed_recover)
next
  case (Inr f)
  with maxed_page_try [of E u s f] show ?thesis
    by (simp add: scrape_page_def)
qed

lemma scrape_loop_maxed:
  "scrape_loop E B cu pc s = (pc', s') \<Longrightarrow> maxed s' = maxed s"
proof (induction E B cu pc s arbitrary: pc' s' rule: scrape_loop.induct)
  case (1 E B cu pc s)
  show ?case
  proof (cases "truthy cu \<and> pc < B")
    case False
    with "1.prems" show ?thesis by (simp add: scrape_loop.simps)
  next
    case True
    show ?thesis
    proof (cases "scrape_page E (the cu) s")
      case (Break s1)
      with True "1.prems" maxed_scrape_page [of E "the cu" s] show ?thesis
        by (auto simp: scrape_loop.simps)
    next
      case (Continue u s1)
      with True "1.prems" have "scrape_loop E B u (Suc pc) s1 = (pc', s')"
        by (simp add: scrape_loop.simps)
      from "1.IH" [OF True Continue this] maxed_scrape_page [of E "the cu" s] Continue
      show ?thesis by auto
    qed
  qed
qed

lemma scrape_from_result:
  obtains pc s' where "scrape_loop E B (Some u) 0 s = (pc, s')"
    "pages_visited s' = pages_visited s + pc" "pc \<le> B"
    "scrape_from E B u s = (if B \<le> pc then logged [MaxPagesReached] s' else s')"
    "(MaxPagesReached \<in> set (log s')) = (MaxPagesReached \<in> set (log s))"
proof -
  obtain pc s' where l: "scrape_loop E B (Some u) 0 s = (pc, s')"
    by (cases "scrape_loop E B (Some u) 0 s")
  from scrape_loop_pages [OF l] have "pages_visited s' = pages_visited s + pc" "pc \<le> B"
    by simp_all
  moreover from l have "scrape_from E B u s = (if B \<le> pc then logged [MaxPagesReached] s' else s')"
    by (simp add: scrape_from_def)
  moreover from scrape_loop_maxed [OF l]
  have "(MaxPagesReached \<in> set (log s')) = (MaxPagesReached \<in> set (log s))"
    by (simp add: maxed_def)
  ultimately show ?thesis using l that by blast
qed

text \<open>
  C5. The loop is a total function (its measure is the budget less the page count), and a
  crawl with budget \<open>B\<close> makes at most \<open>B\<close> fetches, whatever the site does and
  whatever the start URL is; the page count at the loop's exit is at most \<open>B\<close>. With a
  budget of one and a start URL that is not empty, exactly one page is fetched, next link
  or not.
\<close>

theorem crawl_within_budget:
  "pages_visited (scrape_from E B start_url s) \<le> pages_visited s + B
   \<and> fst (scrape_loop E B (Some start_url) 0 s) \<le> B
   \<and> (start_url \<noteq> [] \<longrightarrow>
        pages_visited (scrape_from E 1 start_url s) = pages_visited s + 1)"
proof (intro conjI impI)
  show "pages_visited (scrape_from E B start_url s) \<le> pages_visited s + B"
    by (rule scrape_from_result [of E B start_url s]) auto
  show "fst (scrape_loop E B (Some start_url) 0 s) \<le> B"
    by (rule scrape_from_result [of E B start_url s]) auto
  assume ne: "start_url \<noteq> []"
  show "pages_visited (scrape_from E 1 start_url s) = pages_visited s + 1"
  proof (rule scrape_from_result [of E 1 start_url s])
    fix pc s'
    assume l: "scrape_loop E 1 (Some start_url) 0 s = (pc, s')"
      and p: "pages_visited s' = pages_visited s + pc" and b: "pc \<le> 1"
      and f: "scrape_from E 1 start_url s = (if 1 \<le> pc then logged [MaxPagesReached] s' else s')"
    from ne have t: "truthy (Some start_url)" by (simp add: truthy_def)
    have "pc \<noteq> 0"
    proof (cases "scrape_page E start_url s")
      case (Break s1)
      with l scrape_loop_enter [OF t, of 0 1 E s] show ?thesis
        by simp
    next
      case (Continue u s1)
      with l scrape_loop_enter [OF t, of 0 1 E s] have "scrape_loop E 1 u (Suc 0) s1 = (pc, s')"
        by simp
      from scrape_loop_pages [OF this] show ?thesis by simp
    qed
    with b have "pc = 1" by simp
    with p f show ?thesis by simp
  qed
qed

theorem crawl_within_budget_witness:
  "page_one_url \<noteq> []
   \<and> soup_next_href site html_one = Some (of_ascii ''/p2'')
   \<and> pages_visited (scrape_from site 1 page_one_url new_scraper) = 1
   \<and> pages_visited (scrape_from site 5 page_one_url new_scraper) = 2"
proof -
  have a: "pages_visited new_scraper = 0"
    by (simp add: pages_visited_def new_scraper_def)
  have b: "soup_next_href site html_one = Some (of_ascii ''/p2'')"
    by (simp add: site_def)
  have "(1::nat) < 5" by simp
  then have c: "pages_visited (scrape_from site 5 page_one_url new_scraper) = 2"
    by (simp add: scrape_from_def site_loop pages_visited_def)
  from crawl_within_budget [of site 1 page_one_url new_scraper] site_urls(1) a b c
  show ?thesis by simp
qed

text \<open>
  C1, as the code has it. The line that the page limit was reached is written exactly when
  the number of pages fetched in the crawl equals the budget, whichever way the loop was
  left.
\<close>

theorem budget_line_iff_budget_reached:
  "MaxPagesReached \<notin> set (log s) \<Longrightarrow>
     (MaxPagesReached \<in> set (log (scrape_from E B start_url s)))
       = (pages_visited (scrape_from E B start_url s) = pages_visited s + B)"
  by (rule scrape_from_result [of E B start_url s]) (auto simp: logged_def pages_visited_def)


theorem budget_line_iff_budget_reached_witness:
  "MaxPagesReached \<notin> set (log new_scraper)
   \<and> pages_visited new_scraper = 0
   \<and> pages_visited (scrape_from site 5 page_one_url new_scraper) = 2
   \<and> MaxPagesReached \<notin> set (log (scrape_from site 5 page_one_url new_scraper))
   \<and> pages_visited (scrape_from site 1 page_one_url new_scraper) = 1
   \<and> MaxPagesReached \<in> set (log (scrape_from site 1 page_one_url new_scraper))"
proof -
  have a: "MaxPagesReached \<notin> set (log new_scraper)" "pages_visited new_scraper = 0"
    by (simp_all add: new_scraper_def pages_visited_def)
  have "(1::nat) < 5" by simp
  then have five: "pages_visited (scrape_from site 5 page_one_url new_scraper) = 2"
    by (simp add: scrape_from_def site_loop pages_visited_def)
  have one: "pages_visited (scrape_from site 1 page_one_url new_scraper) = 1"
    by (simp add: scrape_from_def site_loop_one [unfolded One_nat_def] pages_visited_def logged_def)
  from budget_line_iff_budget_reached [OF a(1), of site 5 page_one_url] a(2) five
  have n5: "MaxPagesReached \<notin> set (log (scrape_from site 5 page_one_url new_scraper))"
    by simp
  from budget_line_iff_budget_reached [OF a(1), of site 1 page_one_url] a(2) one
  have n1: "MaxPagesReached \<in> set (log (scrape_from site 1 page_one_url new_scraper))"
    by simp
  from a five one n5 n1 show ?thesis by blast
qed

lemma MAX_PAGES_loop: "(1::nat) < MAX_PAGES"
  by (simp add: MAX_PAGES_def)

text \<open>
  C1 as stated fails on the example site with the configured limit of two pages: the loop is
  left by the \<open>break\<close> for a missing next link on page two (the line \<open>NoNextLink\<close> is
  written there and nowhere else), and the line for the page limit is written all the same.
\<close>

theorem budget_line_counterexample:
  "scrape_products site new_scraper = Inr (scrape_from site MAX_PAGES page_one_url new_scraper)
   \<and> log (scrape_from site MAX_PAGES page_one_url new_scraper) = [NoNextLink, MaxPagesReached]
   \<and> history (scrape_from site MAX_PAGES page_one_url new_scraper) =
       [Setup, Get page_one_url, WaitUntil, PageSource, Get page_two_url, WaitUntil, PageSource]
   \<and> find_next_page_url site html_two = Inr None"
  by (simp add: scrape_products_def site_start scrape_from_def site_loop [OF MAX_PAGES_loop]
        logged_def site_next) (simp add: MAX_PAGES_def)


subsection \<open>A fatal error of the browser\<close>

lemma history_new_scraper: "history new_scraper = [Setup]"
  by (simp add: new_scraper_def)






subsection \<open>Saving\<close>

text \<open>
  C10, as the code has it. With no record, both save functions return normally and make no
  call on the file system. With records, once the output directory is there, they return
  normally whether the write succeeds or raises (the log says which), and leave the records
  as they are; but what \<open>os.makedirs\<close> raises leaves the function, for it stands before
  the \<open>try\<close>.
\<close>

theorem save_functions_contract:
  "(data = [] \<longrightarrow>
      save_to_csv E data filename s = Inr (logged [NoDataToSave] s)
      \<and> save_to_json E data filename s = Inr (logged [NoDataToSave] s)
      \<and> history (logged [NoDataToSave] s) = history s)
   \<and> (data \<noteq> [] \<and> on_makedirs E (history s @ [Makedirs]) = None \<longrightarrow>
      (\<exists>s'. save_to_csv E data filename s = Inr s'
            \<and> all_products_data s' = all_products_data s
            \<and> history s' = history s @ [Makedirs, ToCsv data filename]
            \<and> log s' = log s @ [if on_write E (history s @ [Makedirs, ToCsv data filename])
                                      = None then Saved else SaveFailed])
      \<and> (\<exists>s'. save_to_json E data filename s = Inr s'
            \<and> all_products_data s' = all_products_data s
            \<and> history s' = history s @ [Makedirs, JsonDump data filename]
            \<and> log s' = log s @ [if on_write E (history s @ [Makedirs, JsonDump data filename])
                                      = None then Saved else SaveFailed]))
   \<and> (data \<noteq> [] \<and> on_makedirs E (history s @ [Makedirs]) = Some e \<longrightarrow>
      save_to_csv E data filename s = Inl (e, called Makedirs s)
      \<and> save_to_json E data filename s = Inl (e, called Makedirs s))"
  by (auto simp: save_to_csv_def save_to_json_def Let_def called_def logged_def
           split: option.splits)

lemma site_full_facts:
  "on_makedirs site_full h = None" "on_write site_full h = Some OtherError"
  by (simp_all add: site_full_def site_def)

theorem save_functions_contract_witness:
  "[product_info site_join stamp laptop_a] \<noteq> []
   \<and> on_makedirs site_full (history new_scraper @ [Makedirs]) = None
   \<and> on_write site_full
        (history new_scraper @ [Makedirs, ToCsv [product_info site_join stamp laptop_a]
                                                  OUTPUT_FILENAME_CSV])
       = Some OtherError
   \<and> save_to_csv site_full [product_info site_join stamp laptop_a] OUTPUT_FILENAME_CSV
        new_scraper
       = Inr (logged [SaveFailed]
                (called (ToCsv [product_info site_join stamp laptop_a] OUTPUT_FILENAME_CSV)
                   (called Makedirs new_scraper)))
   \<and> save_to_json site_full [] OUTPUT_FILENAME_JSON new_scraper
       = Inr (logged [NoDataToSave] new_scraper)
   \<and> on_makedirs site_readonly (history new_scraper @ [Makedirs]) = Some OtherError
   \<and> save_to_json site_readonly [product_info site_join stamp laptop_a] OUTPUT_FILENAME_JSON
        new_scraper
       = Inl (OtherError, called Makedirs new_scraper)"
proof -
  have a: "[product_info site_join stamp laptop_a] \<noteq> []" by simp
  have b: "on_makedirs site_readonly (history new_scraper @ [Makedirs]) = Some OtherError"
    by (simp add: site_readonly_def site_def)
  have c: "save_to_csv site_full [product_info site_join stamp laptop_a] OUTPUT_FILENAME_CSV
        new_scraper
       = Inr (logged [SaveFailed]
                (called (ToCsv [product_info site_join stamp laptop_a] OUTPUT_FILENAME_CSV)
                   (called Makedirs new_scraper)))"
    by (simp add: save_to_csv_def Let_def site_full_facts)
  from save_functions_contract
         [of "[]" site_full OUTPUT_FILENAME_JSON new_scraper OtherError]
  have d: "save_to_json site_full [] OUTPUT_FILENAME_JSON new_scraper
       = Inr (logged [NoDataToSave] new_scraper)"
    by simp
  from save_functions_contract
         [of "[product_info site_join stamp laptop_a]" site_readonly OUTPUT_FILENAME_JSON
             new_scraper OtherError] a b
  have e: "save_to_json site_readonly [product_info site_join stamp laptop_a]
             OUTPUT_FILENAME_JSON new_scraper
       = Inl (OtherError, called Makedirs new_scraper)"
    by simp
  from a b c d e site_full_facts show ?thesis by simp
qed

text \<open>
  C10 as stated fails where the output directory cannot be created: \<open>save_to_csv\<close> ends
  with the exception of \<open>os.makedirs\<close>.
\<close>

theorem save_raises_counterexample:
  "save_to_csv site_readonly [product_info site_join stamp laptop_a] OUTPUT_FILENAME_CSV
     new_scraper
   = Inl (OtherError, called Makedirs new_scraper)"
  by (simp add: save_to_csv_def Let_def site_readonly_def site_def)


subsection \<open>A timeout of the wait\<close>

lemma data_called [simp]: "all_products_data (called c s) = all_products_data s"
  "ticks (called c s) = ticks s" "history (called c s) = history s @ [c]"
  "log (called c s) = log s"
  by (simp_all add: called_def)

lemma data_logged [simp]: "all_products_data (logged ls s) = all_products_data s"
  "ticks (logged ls s) = ticks s" "history (logged ls s) = history s"
  "log (logged ls s) = log s @ ls"
  by (simp_all add: logged_def)

lemma data_recover [simp]:
  "all_products_data (flow_state (recover E ls s)) = all_products_data s"
  by (simp add: recover_def Let_def split: sum.splits)

text \<open>What the pass leaves in the accumulator once a page source has been read.\<close>

lemma page_rest_extracts:
  assumes "on_page_source E (history s @ [PageSource]) = Inr html" "html \<noteq> []"
  shows "all_products_data (case page_rest E s of Inl (e, s') \<Rightarrow> s' | Inr f \<Rightarrow> flow_state f)
         = all_products_data s @ fst (parse_product_listings E html (ticks s))"
  using assms
  by (simp add: page_rest_def Let_def split: sum.splits prod.splits)

lemma scrape_page_data:
  "all_products_data (flow_state (scrape_page E u s))
     = all_products_data (case page_try E u s of Inl (e, s') \<Rightarrow> s' | Inr f \<Rightarrow> flow_state f)"
  by (simp add: scrape_page_def split: sum.splits prod.splits exn.splits)

text \<open>
  C7. The fetch went through and the wait for the product containers timed out. The page
  source is read; if its lowercase form contains \<open>no results\<close>, the pass ends in
  \<open>break\<close> with the accumulator and the clock untouched (nothing was extracted), and
  the loop ends there. Otherwise the pass goes on exactly as after a successful wait: the
  page source is read again and, when it is not empty, its records are appended.
\<close>

theorem wait_timeout_policy:
  assumes "on_get E (history s @ [Get u]) = None"
    and "on_wait E (history s @ [Get u, WaitUntil]) = Some TimeoutException"
    and "on_page_source E (history s @ [Get u, WaitUntil, PageSource]) = Inr src"
  shows "(contains (of_ascii ''no results'') (lower src) \<longrightarrow>
            scrape_page E u s =
              Break (logged [NoResultsStop]
                       (called PageSource (called WaitUntil (called (Get u) s))))
            \<and> all_products_data (flow_state (scrape_page E u s)) = all_products_data s
            \<and> ticks (flow_state (scrape_page E u s)) = ticks s
            \<and> (u \<noteq> [] \<and> pc < B \<longrightarrow>
                 scrape_loop E B (Some u) pc s =
                   (Suc pc, logged [NoResultsStop]
                              (called PageSource (called WaitUntil (called (Get u) s))))))
       \<and> (\<not> contains (of_ascii ''no results'') (lower src) \<longrightarrow>
            page_try E u s =
              page_rest E (called PageSource (called WaitUntil (called (Get u) s)))
            \<and> (on_page_source E (history s @ [Get u, WaitUntil, PageSource, PageSource])
                  = Inr html \<and> html \<noteq> [] \<longrightarrow>
                all_products_data (flow_state (scrape_page E u s)) =
                  all_products_data s @ fst (parse_product_listings E html (ticks s))))"
proof (intro conjI impI)
  assume m: "contains (of_ascii ''no results'') (lower src)"
  with assms show b: "scrape_page E u s =
              Break (logged [NoResultsStop]
                       (called PageSource (called WaitUntil (called (Get u) s))))"
    by (simp add: scrape_page_def page_try_def Let_def)
  show "all_products_data (flow_state (scrape_page E u s)) = all_products_data s"
    by (simp add: b)
  show "ticks (flow_state (scrape_page E u s)) = ticks s"
    by (simp add: b)
  assume "u \<noteq> [] \<and> pc < B"
  then have "truthy (Some u)" "pc < B" by (simp_all add: truthy_def)
  then show "scrape_loop E B (Some u) pc s =
                   (Suc pc, logged [NoResultsStop]
                              (called PageSource (called WaitUntil (called (Get u) s))))"
    by (simp add: scrape_loop_enter b)
next
  assume m: "\<not> contains (of_ascii ''no results'') (lower src)"
  with assms show t: "page_try E u s =
              page_rest E (called PageSource (called WaitUntil (called (Get u) s)))"
    by (simp add: page_try_def Let_def)
  assume "on_page_source E (history s @ [Get u, WaitUntil, PageSource, PageSource])
                  = Inr html \<and> html \<noteq> []"
  then have "all_products_data
               (case page_rest E (called PageSource (called WaitUntil (called (Get u) s))) of
                  Inl (e, s') \<Rightarrow> s' | Inr f \<Rightarrow> flow_state f)
             = all_products_data (called PageSource (called WaitUntil (called (Get u) s)))
               @ fst (parse_product_listings E html
                        (ticks (called PageSource (called WaitUntil (called (Get u) s)))))"
    by (intro page_rest_extracts) simp_all
  then show "all_products_data (flow_state (scrape_page E u s)) =
                  all_products_data s @ fst (parse_product_listings E html (ticks s))"
    by (simp add: scrape_page_data t)
qed


lemma site_empty_facts:
  "on_get site_empty h = None" "on_wait site_empty h = Some TimeoutException"
  "on_page_source site_empty h = Inr (of_ascii ''Sorry: No Results'')"
  by (simp_all add: site_empty_def site_def)

lemma site_waiting_facts:
  "on_get site_waiting h = None" "on_wait site_waiting h = Some TimeoutException"
  "on_page_source site_waiting h = Inr (page_of (last_get h))"
  "parse_product_listings site_waiting = parse_product_listings site"
  by (simp_all add: site_waiting_def site_def parse_product_listings_def fun_eq_iff)

lemma marker_found:
  "contains (of_ascii ''no results'') (lower (of_ascii ''Sorry: No Results''))"
  by (simp add: of_ascii_def lower_def lower_char_def)

lemma marker_not_found:
  "\<not> contains (of_ascii ''no results'') (lower html_one)"
  by (simp add: of_ascii_def lower_def lower_char_def html_one_def)

theorem wait_timeout_policy_witness:
  "on_get site_empty (history new_scraper @ [Get page_one_url]) = None
   \<and> on_wait site_empty (history new_scraper @ [Get page_one_url, WaitUntil])
       = Some TimeoutException
   \<and> on_page_source site_empty (history new_scraper @ [Get page_one_url, WaitUntil, PageSource])
       = Inr (of_ascii ''Sorry: No Results'')
   \<and> contains (of_ascii ''no results'') (lower (of_ascii ''Sorry: No Results''))
   \<and> scrape_page site_empty page_one_url new_scraper =
       Break (logged [NoResultsStop]
                (called PageSource (called WaitUntil (called (Get page_one_url) new_scraper))))
   \<and> scrape_loop site_empty 5 (Some page_one_url) 0 new_scraper =
       (Suc 0, logged [NoResultsStop]
                 (called PageSource (called WaitUntil (called (Get page_one_url) new_scraper))))
   \<and> on_wait site_waiting (history new_scraper @ [Get page_one_url, WaitUntil])
       = Some TimeoutException
   \<and> on_page_source site_waiting
         (history new_scraper @ [Get page_one_url, WaitUntil, PageSource]) = Inr html_one
   \<and> \<not> contains (of_ascii ''no results'') (lower html_one)
   \<and> all_products_data (flow_state (scrape_page site_waiting page_one_url new_scraper)) =
       [product_info site_join stamp laptop_a, product_info site_join stamp laptop_b]"
proof -
  have s1: "on_page_source site_waiting
         (history new_scraper @ [Get page_one_url, WaitUntil, PageSource]) = Inr html_one"
    and s2: "on_page_source site_waiting
         (history new_scraper @ [Get page_one_url, WaitUntil, PageSource, PageSource])
           = Inr html_one"
    by (simp_all add: site_waiting_facts history_new_scraper last_get_Cons site_urls site_pages
          del: last_get.simps(2))
  have d: "all_products_data new_scraper = []" "ticks new_scraper = 0"
    by (simp_all add: new_scraper_def)
  have five: "page_one_url \<noteq> [] \<and> (0::nat) < 5"
    using site_urls(1) by simp
  note e = wait_timeout_policy
    [where E = site_empty and s = new_scraper and u = page_one_url and pc = 0 and B = 5,
     OF site_empty_facts(1) site_empty_facts(2) site_empty_facts(3)]
  note w = wait_timeout_policy
    [where E = site_waiting and s = new_scraper and u = page_one_url and html = html_one,
     OF site_waiting_facts(1) site_waiting_facts(2) s1]
  from e marker_found five
  have e1: "scrape_page site_empty page_one_url new_scraper =
       Break (logged [NoResultsStop]
                (called PageSource (called WaitUntil (called (Get page_one_url) new_scraper))))"
    and e2: "scrape_loop site_empty 5 (Some page_one_url) 0 new_scraper =
       (Suc 0, logged [NoResultsStop]
                 (called PageSource (called WaitUntil (called (Get page_one_url) new_scraper))))"
    by blast+
  from w marker_not_found s2 site_urls(4)
  have "all_products_data (flow_state (scrape_page site_waiting page_one_url new_scraper)) =
          all_products_data new_scraper
          @ fst (parse_product_listings site_waiting html_one (ticks new_scraper))"
    by blast
  then have w1: "all_products_data (flow_state (scrape_page site_waiting page_one_url new_scraper)) =
       [product_info site_join stamp laptop_a, product_info site_join stamp laptop_b]"
    by (simp add: d site_waiting_facts(4) site_parse)
  from e1 e2 w1 s1 marker_found marker_not_found site_empty_facts site_waiting_facts(2)
  show ?thesis by simp
qed


subsection \<open>Where the next URL comes from\<close>

lemma resolved_from_later:
  assumes "history s1 = history s @ a0" "resolved_from E s1 s' u'"
  shows "resolved_from E s s' u'"
proof -
  from assms(2) obtain a b src where h: "history s' = history s1 @ a @ [PageSource] @ b"
    and r: "on_page_source E (history s1 @ a @ [PageSource]) = Inr src"
    and f: "find_next_page_url E src = Inr u'"
    by (auto simp: resolved_from_def)
  from h r assms(1) have "history s' = history s @ (a0 @ a) @ [PageSource] @ b"
    "on_page_source E (history s @ (a0 @ a) @ [PageSource]) = Inr src"
    by simp_all
  with f show ?thesis unfolding resolved_from_def by blast
qed

lemma resolved_from_here:
  assumes "on_page_source E (history s @ [PageSource]) = Inr src"
    "find_next_page_url E src = Inr u'" "history s' = history s @ [PageSource]"
  shows "resolved_from E s s' u'"
  unfolding resolved_from_def
  using assms by (intro exI [of _ "[]"] exI [of _ src]) simp

lemma recover_resolved:
  assumes "recover E ls s = Continue u' s'"
  shows "u' = None \<or> resolved_from E s s' u'"
proof (cases "on_page_source E (history s @ [PageSource])")
  case (Inl e)
  with assms show ?thesis by (simp add: recover_def Let_def)
next
  case (Inr src)
  show ?thesis
  proof (cases "find_next_page_url E src")
    case (Inl e)
    with Inr assms show ?thesis by (simp add: recover_def Let_def)
  next
    case r: (Inr v)
    with Inr assms have "u' = v" "s' = called PageSource s"
      by (simp_all add: recover_def Let_def)
    with Inr r have "resolved_from E s s' u'"
      by (intro resolved_from_here [of E s src]) simp_all
    then show ?thesis ..
  qed
qed

lemma recover_continues: "\<exists>u' s'. recover E ls s = Continue u' s'"
  by (simp add: recover_def Let_def split: sum.splits)

lemma page_rest_resolved:
  assumes "page_rest E s = Inr (Continue u' s')"
  shows "u' = None \<or> resolved_from E s s' u'"
proof (cases "on_page_source E (history s @ [PageSource])")
  case (Inl e)
  with assms show ?thesis by (simp add: page_rest_def Let_def)
next
  case (Inr html)
  show ?thesis
  proof (cases "html = []")
    case True
    with Inr assms have "recover E [] (called PageSource s) = Continue u' s'"
      by (simp add: page_rest_def Let_def)
    from recover_resolved [OF this] show ?thesis
      using resolved_from_later [of "called PageSource s" s "[PageSource]" E s' u'] by auto
  next
    case False
    with Inr assms have "find_next_page_url E html = Inr u'"
      "history s' = history s @ [PageSource]"
      by (auto simp: page_rest_def Let_def split: prod.splits sum.splits if_splits)
    with Inr have "resolved_from E s s' u'"
      by (intro resolved_from_here [of E s html]) simp_all
    then show ?thesis ..
  qed
qed

lemma page_rest_raise_history:
  "page_rest E s = Inl (e, s') \<Longrightarrow> \<exists>a. history s' = history s @ a"
  by (auto simp: page_rest_def Let_def split: prod.splits sum.splits if_splits)

lemma page_try_resolved:
  assumes "page_try E u s = Inr (Continue u' s')"
  shows "u' = None \<or> resolved_from E s s' u'"
proof -
  from assms have "page_rest E (called WaitUntil (called (Get u) s)) = Inr (Continue u' s')
      \<or> page_rest E (called PageSource (called WaitUntil (called (Get u) s)))
           = Inr (Continue u' s')"
    by (auto simp: page_try_def Let_def split: option.splits sum.splits if_splits)
  then show ?thesis
  proof
    assume "page_rest E (called WaitUntil (called (Get u) s)) = Inr (Continue u' s')"
    from page_rest_resolved [OF this] show ?thesis
      using resolved_from_later [of "called WaitUntil (called (Get u) s)" s "[Get u, WaitUntil]"]
      by auto
  next
    assume "page_rest E (called PageSource (called WaitUntil (called (Get u) s)))
           = Inr (Continue u' s')"
    from page_rest_resolved [OF this] show ?thesis
      using resolved_from_later [of "called PageSource (called WaitUntil (called (Get u) s))" s
              "[Get u, WaitUntil, PageSource]"]
      by auto
  qed
qed

lemma page_try_raise_history:
  "page_try E u s = Inl (e, s') \<Longrightarrow> \<exists>a. history s' = history s @ a"
  by (auto simp: page_try_def Let_def split: option.splits sum.splits if_splits
           dest!: page_rest_raise_history)

lemma scrape_page_resolved:
  assumes "scrape_page E u s = Continue u' s'"
  shows "u' = None \<or> resolved_from E s s' u'"
proof (cases "page_try E u s")
  case (Inr f)
  with assms have "page_try E u s = Inr (Continue u' s')"
    by (simp add: scrape_page_def)
  then show ?thesis by (rule page_try_resolved)
next
  case (Inl x)
  obtain e s1 where x: "x = (e, s1)" by (cases x)
  from Inl x page_try_raise_history obtain a where a: "history s1 = history s @ a"
    by blast
  from Inl x assms have "recover E [RecoveryFailed] s1 = Continue u' s'"
    by (cases e) (simp_all add: scrape_page_def)
  from recover_resolved [OF this] show ?thesis
    using resolved_from_later [OF a] by auto
qed


lemma recover_history:
  "history (flow_state (recover E ls s)) = history s @ [PageSource]"
  by (simp add: recover_def Let_def split: sum.splits)

lemma page_rest_history:
  "page_rest E s = Inr f \<Longrightarrow> \<exists>a. history (flow_state f) = history s @ a"
  by (auto simp: page_rest_def Let_def recover_history split: prod.splits sum.splits if_splits)

lemma page_try_raise_first:
  "page_try E u s = Inl (e, s') \<Longrightarrow> \<exists>a. history s' = history s @ Get u # a"
  by (auto simp: page_try_def Let_def split: option.splits sum.splits if_splits
           dest!: page_rest_raise_history)

lemma page_try_first:
  "page_try E u s = Inr f \<Longrightarrow> \<exists>a. history (flow_state f) = history s @ Get u # a"
  by (auto simp: page_try_def Let_def split: option.splits sum.splits if_splits
           dest!: page_rest_history)

lemma scrape_page_first:
  "\<exists>a. history (flow_state (scrape_page E u s)) = history s @ Get u # a"
proof (cases "page_try E u s")
  case (Inl x)
  obtain e s1 where x: "x = (e, s1)" by (cases x)
  from Inl x page_try_raise_first obtain a where "history s1 = history s @ Get u # a"
    by blast
  with Inl x show ?thesis
    by (cases e) (simp_all add: scrape_page_def recover_history)
next
  case (Inr f)
  with page_try_first [OF Inr] show ?thesis
    by (simp add: scrape_page_def)
qed

lemma scrape_loop_history:
  "\<exists>a. history (snd (scrape_loop E B cu pc s)) = history s @ a"
proof (induction E B cu pc s rule: scrape_loop.induct)
  case (1 E B cu pc s)
  show ?case
  proof (cases "truthy cu \<and> pc < B")
    case False
    then show ?thesis by (simp add: scrape_loop_exit)
  next
    case True
    from scrape_page_first [of E "the cu" s] obtain a
      where a: "history (flow_state (scrape_page E (the cu) s)) = history s @ Get (the cu) # a"
      by blast
    show ?thesis
    proof (cases "scrape_page E (the cu) s")
      case (Break s1)
      with True a show ?thesis by (simp add: scrape_loop_enter)
    next
      case (Continue v s1)
      from "1.IH" [OF True Continue] obtain b
        where "history (snd (scrape_loop E B v (Suc pc) s1)) = history s1 @ b" by blast
      with True Continue a show ?thesis by (simp add: scrape_loop_enter)
    qed
  qed
qed

lemma scrape_loop_first:
  assumes "v \<noteq> []" "pc < B"
  shows "\<exists>a. history (snd (scrape_loop E B (Some v) pc s)) = history s @ Get v # a"
proof -
  from assms have t: "truthy (Some v)" by (simp add: truthy_def)
  from scrape_page_first [of E v s] obtain a
    where a: "history (flow_state (scrape_page E v s)) = history s @ Get v # a"
    by blast
  show ?thesis
  proof (cases "scrape_page E v s")
    case (Break s1)
    with t assms a show ?thesis by (simp add: scrape_loop_enter)
  next
    case (Continue w s1)
    from scrape_loop_history [of E B w "Suc pc" s1] obtain b
      where "history (snd (scrape_loop E B w (Suc pc) s1)) = history s1 @ b" by blast
    with t assms Continue a show ?thesis by (simp add: scrape_loop_enter)
  qed
qed

text \<open>
  C8, as the code has it. A pass through the loop body that does not leave the loop hands on
  a URL that is None or what \<open>find_next_page_url\<close> returned for a page source read
  during that pass. A fetch that raises a timeout or an unexpected error, and a page source
  that comes back empty, lead to \<open>recover\<close>, which reads the page source again, asks
  \<open>find_next_page_url\<close>, and always continues. The loop then goes on from the URL handed
  on: its next call is the fetch of that URL, or it ends without a call when the URL is None
  or empty or the budget is used up. Nothing compares the URL handed on with the URL given.
\<close>

theorem next_fetch_is_resolved:
  "(scrape_page E u s = Continue u' s' \<longrightarrow> u' = None \<or> resolved_from E s s' u')
   \<and> (on_get E (history s @ [Get u]) = Some e \<and> e \<noteq> WebDriverException \<longrightarrow>
        scrape_page E u s = recover E [RecoveryFailed] (called (Get u) s))
   \<and> (on_page_source E (history s @ [PageSource]) = Inr [] \<longrightarrow>
        page_rest E s = Inr (recover E [] (called PageSource s)))
   \<and> (recover E ls s = Continue u' s' \<longrightarrow> u' = None \<or> resolved_from E s s' u')
   \<and> (\<exists>v t. recover E ls s = Continue v t)
   \<and> (u \<noteq> [] \<and> pc < B \<and> scrape_page E u s = Continue u' s' \<longrightarrow>
        scrape_loop E B (Some u) pc s = scrape_loop E B u' (Suc pc) s')
   \<and> (u' = Some v \<and> v \<noteq> [] \<and> Suc pc < B \<longrightarrow>
        (\<exists>a. history (snd (scrape_loop E B u' (Suc pc) s')) = history s' @ Get v # a))
   \<and> (\<not> (truthy u' \<and> Suc pc < B) \<longrightarrow> scrape_loop E B u' (Suc pc) s' = (Suc pc, s'))"
proof (intro conjI impI)
  show "u' = None \<or> resolved_from E s s' u'" if "scrape_page E u s = Continue u' s'"
    using that by (rule scrape_page_resolved)
  show "scrape_page E u s = recover E [RecoveryFailed] (called (Get u) s)"
    if "on_get E (history s @ [Get u]) = Some e \<and> e \<noteq> WebDriverException"
    using that by (cases e) (simp_all add: scrape_page_def page_try_def Let_def)
  show "page_rest E s = Inr (recover E [] (called PageSource s))"
    if "on_page_source E (history s @ [PageSource]) = Inr []"
    using that by (simp add: page_rest_def Let_def)
  show "u' = None \<or> resolved_from E s s' u'" if "recover E ls s = Continue u' s'"
    using that by (rule recover_resolved)
  show "\<exists>v t. recover E ls s = Continue v t"
    by (rule recover_continues)
  show "scrape_loop E B (Some u) pc s = scrape_loop E B u' (Suc pc) s'"
    if "u \<noteq> [] \<and> pc < B \<and> scrape_page E u s = Continue u' s'"
  proof -
    from that have "truthy (Some u)" "pc < B" by (simp_all add: truthy_def)
    with that show ?thesis by (simp add: scrape_loop_enter)
  qed
  show "\<exists>a. history (snd (scrape_loop E B u' (Suc pc) s')) = history s' @ Get v # a"
    if "u' = Some v \<and> v \<noteq> [] \<and> Suc pc < B"
    using that scrape_loop_first [of v "Suc pc" B E s'] by simp
  show "scrape_loop E B u' (Suc pc) s' = (Suc pc, s')" if "\<not> (truthy u' \<and> Suc pc < B)"
    using that by (rule scrape_loop_exit)
qed

lemma site_slow_facts:
  "on_get site_slow h = Some TimeoutException"
  "on_page_source site_slow h = Inr (page_of (last_get h))"
  "find_next_page_url site_slow = find_next_page_url site"
  by (simp_all add: site_slow_def site_def find_next_page_url_def fun_eq_iff)

theorem next_fetch_is_resolved_witness:
  "on_get site_slow (history new_scraper @ [Get page_one_url]) = Some TimeoutException
   \<and> TimeoutException \<noteq> WebDriverException
   \<and> scrape_page site_slow page_one_url new_scraper =
       Continue (Some page_two_url) (called PageSource (called (Get page_one_url) new_scraper))
   \<and> resolved_from site_slow new_scraper
        (called PageSource (called (Get page_one_url) new_scraper)) (Some page_two_url)
   \<and> on_page_source site_slow (history new_scraper @ [Get page_one_url, PageSource])
       = Inr html_one
   \<and> find_next_page_url site_slow html_one = Inr (Some page_two_url)
   \<and> page_one_url \<noteq> [] \<and> page_two_url \<noteq> []
   \<and> scrape_loop site_slow 5 (Some page_one_url) 0 new_scraper =
       scrape_loop site_slow 5 (Some page_two_url) (Suc 0)
         (called PageSource (called (Get page_one_url) new_scraper))
   \<and> (\<exists>a. history (snd (scrape_loop site_slow 5 (Some page_two_url) (Suc 0)
                          (called PageSource (called (Get page_one_url) new_scraper))))
          = history (called PageSource (called (Get page_one_url) new_scraper))
            @ Get page_two_url # a)"
proof -
  note t = next_fetch_is_resolved
    [where E = site_slow and u = page_one_url and s = new_scraper and e = TimeoutException
       and u' = "Some page_two_url" and v = page_two_url and pc = 0 and B = 5
       and s' = "called PageSource (called (Get page_one_url) new_scraper)"]
  have src: "on_page_source site_slow (history new_scraper @ [Get page_one_url, PageSource])
       = Inr html_one"
    by (simp add: site_slow_facts history_new_scraper last_get_Cons site_urls site_pages
          del: last_get.simps(2))
  have nxt: "find_next_page_url site_slow html_one = Inr (Some page_two_url)"
    by (simp add: site_slow_facts site_next)
  have r: "recover site_slow [RecoveryFailed] (called (Get page_one_url) new_scraper) =
       Continue (Some page_two_url) (called PageSource (called (Get page_one_url) new_scraper))"
    using src nxt by (simp add: recover_def Let_def)
  from t site_slow_facts(1) r
  have p: "scrape_page site_slow page_one_url new_scraper =
       Continue (Some page_two_url) (called PageSource (called (Get page_one_url) new_scraper))"
    by simp
  with t have q: "resolved_from site_slow new_scraper
        (called PageSource (called (Get page_one_url) new_scraper)) (Some page_two_url)"
    by blast
  have five: "(0::nat) < 5" "Suc 0 < (5::nat)" by simp_all
  from t p site_urls(1) five(1)
  have l: "scrape_loop site_slow 5 (Some page_one_url) 0 new_scraper =
       scrape_loop site_slow 5 (Some page_two_url) (Suc 0)
         (called PageSource (called (Get page_one_url) new_scraper))"
    by blast
  from t site_urls(2) five(2)
  have h: "\<exists>a. history (snd (scrape_loop site_slow 5 (Some page_two_url) (Suc 0)
                          (called PageSource (called (Get page_one_url) new_scraper))))
          = history (called PageSource (called (Get page_one_url) new_scraper))
            @ Get page_two_url # a"
    by blast
  from p q src nxt site_slow_facts(1) site_urls(1,2) l h show ?thesis by simp
qed

lemma site_stall_facts:
  "on_get site_stall h = (if last_get h = page_two_url then Some TimeoutException else None)"
  "on_wait site_stall h = None"
  "on_page_source site_stall h = Inr html_one"
  "find_next_page_url site_stall = find_next_page_url site"
  "parse_product_listings site_stall = parse_product_listings site"
  by (simp_all add: site_stall_def site_def find_next_page_url_def parse_product_listings_def
        fun_eq_iff)

lemma site_stall_page_one:
  "scrape_page site_stall page_one_url new_scraper = Continue (Some page_two_url) page_one_done"
  by (simp add: crawl_defs new_scraper_def page_one_done_def site_stall_facts last_get_Cons
        site_urls site_next site_parse del: last_get.simps(2))

lemma site_stall_page_two:
  "scrape_page site_stall page_two_url page_one_done =
     Continue (Some page_two_url) (called PageSource (called (Get page_two_url) page_one_done))"
  "scrape_page site_stall page_two_url
       (called PageSource (called (Get page_two_url) page_one_done)) =
     Continue (Some page_two_url)
       (called PageSource (called (Get page_two_url)
          (called PageSource (called (Get page_two_url) page_one_done))))"
  by (simp_all add: scrape_page_def page_try_def recover_def Let_def page_one_done_def
        site_stall_facts last_get_Cons site_urls site_next called_def logged_def
        del: last_get.simps(2))

lemma site_stall_loop:
  "scrape_loop site_stall 3 (Some page_one_url) 0 new_scraper =
     (3, called PageSource (called (Get page_two_url)
           (called PageSource (called (Get page_two_url) page_one_done))))"
proof -
  have t: "truthy (Some page_one_url)" "truthy (Some page_two_url)"
    using site_urls by (simp_all add: truthy_def)
  have "scrape_loop site_stall 3 (Some page_one_url) 0 new_scraper
        = scrape_loop site_stall 3 (Some page_two_url) (Suc 0) page_one_done"
    by (simp add: scrape_loop_enter [OF t(1)] site_stall_page_one)
  also have "\<dots> = scrape_loop site_stall 3 (Some page_two_url) (Suc (Suc 0))
                     (called PageSource (called (Get page_two_url) page_one_done))"
    by (simp add: scrape_loop_enter [OF t(2)] site_stall_page_two)
  also have "\<dots> = scrape_loop site_stall 3 (Some page_two_url) (Suc (Suc (Suc 0)))
                     (called PageSource (called (Get page_two_url)
                        (called PageSource (called (Get page_two_url) page_one_done))))"
    by (simp add: scrape_loop_enter [OF t(2)] site_stall_page_two)
  also have "\<dots> = (3, called PageSource (called (Get page_two_url)
                        (called PageSource (called (Get page_two_url) page_one_done))))"
    by (simp add: scrape_loop_exit)
  finally show ?thesis .
qed

text \<open>
  C8 as stated fails on the day page two never loads: the fetch of page two times out, the
  page source still is page one, whose next link is the URL of page two, and the pass hands
  on the URL it was given. With a budget of three the loop fetches page two twice.
\<close>

theorem same_page_fetched_again_counterexample:
  "on_get site_stall (history page_one_done @ [Get page_two_url]) = Some TimeoutException
   \<and> scrape_page site_stall page_two_url page_one_done =
       Continue (Some page_two_url) (called PageSource (called (Get page_two_url) page_one_done))
   \<and> history (snd (scrape_loop site_stall 3 (Some page_one_url) 0 new_scraper)) =
       [Setup, Get page_one_url, WaitUntil, PageSource,
        Get page_two_url, PageSource, Get page_two_url, PageSource]"
proof -
  have "on_get site_stall (history page_one_done @ [Get page_two_url]) = Some TimeoutException"
    by (simp add: site_stall_facts page_one_done_def last_get_Cons site_urls
          del: last_get.simps(2))
  then show ?thesis
    by (simp add: site_stall_page_two site_stall_loop) (simp add: page_one_done_def)
qed

end
